theory Spec2Isabelle
  imports Main "HOL-Library.Char_ord" "HOL-Library.List_Lexorder" "HOL-Library.AList"
begin

section \<open>Bytes and strings\<close>

text \<open>
  A Go \<open>string\<close> and a Go \<open>[]byte\<close> are both sequences of arbitrary bytes; the conversions
  \<open>string(b)\<close> and \<open>[]byte(s)\<close> copy them unchanged. Both are modelled as \<open>char list\<close>,
  one \<open>char\<close> per byte, and \<open>byte c\<close> is the value of a byte, between 0 and 255.
  A \<open>nil\<close> slice and an empty slice are both the empty list: the response payload and the
  JSON decoder do not distinguish them.
\<close>

type_synonym bytes = string

abbreviation byte :: "char \<Rightarrow> nat" where
  "byte c \<equiv> of_char c"

section \<open>UTF-8, as package unicode/utf8 decodes and encodes it\<close>

text \<open>
  Runes are natural numbers. The masks and shifts of the Go code are written as arithmetic:
  \<open>p0 & 0x1F\<close> is \<open>p0 mod 32\<close>, \<open>x << 6\<close> is \<open>x * 64\<close>, and the \<open>|\<close> of fields that do not
  overlap is their sum.
\<close>

definition RuneError :: nat where
  "RuneError = 0xFFFD"

text \<open>
  \<open>utf8.DecodeRune\<close>: the rune at the start of \<open>p\<close> and its width in bytes;
  \<open>(RuneError, 1)\<close> where the encoding is invalid. The table \<open>first\<close> and the accept
  ranges of the Go code are the conditions on \<open>p0\<close> below: lead bytes are \<open>0xC2..0xF4\<close>,
  the second byte of a sequence is restricted after \<open>0xE0\<close>, \<open>0xED\<close>, \<open>0xF0\<close> and \<open>0xF4\<close>.
\<close>

definition DecodeRune :: "bytes \<Rightarrow> nat \<times> nat" where
  "DecodeRune p =
     (if length p < 1 then (RuneError, 0)
      else
        let p0 = byte (p ! 0) in
        if p0 < 0x80 then (p0, 1)
        else if p0 < 0xC2 \<or> 0xF4 < p0 then (RuneError, 1)
        else
          let sz = (if p0 < 0xE0 then 2 else if p0 < 0xF0 then 3 else 4 :: nat);
              lo = (if p0 = 0xE0 then 0xA0 else if p0 = 0xF0 then 0x90 else 0x80 :: nat);
              hi = (if p0 = 0xED then 0x9F else if p0 = 0xF4 then 0x8F else 0xBF :: nat)
          in
          if length p < sz then (RuneError, 1)
          else
            let b1 = byte (p ! 1) in
            if b1 < lo \<or> hi < b1 then (RuneError, 1)
            else if sz \<le> 2 then ((p0 mod 32) * 64 + b1 mod 64, 2)
            else
              let b2 = byte (p ! 2) in
              if b2 < 0x80 \<or> 0xBF < b2 then (RuneError, 1)
              else if sz \<le> 3 then ((p0 mod 16) * 4096 + (b1 mod 64) * 64 + b2 mod 64, 3)
              else
                let b3 = byte (p ! 3) in
                if b3 < 0x80 \<or> 0xBF < b3 then (RuneError, 1)
                else ((p0 mod 8) * 262144 + (b1 mod 64) * 4096 + (b2 mod 64) * 64
                      + b3 mod 64, 4))"

text \<open>\<open>utf8.EncodeRune\<close>: surrogates and runes beyond \<open>U+10FFFF\<close> are written as \<open>U+FFFD\<close>.\<close>

definition EncodeRune :: "nat \<Rightarrow> bytes" where
  "EncodeRune r =
     (if r \<le> 0x7F then [char_of r]
      else if r \<le> 0x7FF then [char_of (0xC0 + r div 64), char_of (0x80 + r mod 64)]
      else if 0x10FFFF < r \<or> (0xD800 \<le> r \<and> r \<le> 0xDFFF)
        then [CHR 0xEF, CHR 0xBF, CHR 0xBD]
      else if r \<le> 0xFFFF
        then [char_of (0xE0 + r div 4096), char_of (0x80 + (r div 64) mod 64),
              char_of (0x80 + r mod 64)]
      else [char_of (0xF0 + r div 262144), char_of (0x80 + (r div 4096) mod 64),
            char_of (0x80 + (r div 64) mod 64), char_of (0x80 + r mod 64)])"

text \<open>\<open>utf8.ValidString\<close>: every rune of the string decodes without error.\<close>

function ValidString :: "bytes \<Rightarrow> bool" where
  "ValidString s =
     (if s = [] then True
      else
        let (r, w) = DecodeRune s in
        if r = RuneError \<and> w = 1 then False else ValidString (drop w s))"
  by pat_completeness auto

lemma DecodeRune_width_pos: "s \<noteq> [] \<Longrightarrow> 0 < snd (DecodeRune s)"
  unfolding DecodeRune_def Let_def by simp

lemma DecodeRune_width_le: "snd (DecodeRune s) \<le> 4"
  unfolding DecodeRune_def Let_def by simp

lemma DecodeRune_shorter: "(r, w) = DecodeRune s \<Longrightarrow> s \<noteq> [] \<Longrightarrow> length s - w < length s"
  using DecodeRune_width_pos [of s] by (cases "DecodeRune s") auto

termination ValidString
  by (relation "measure length") (auto dest: DecodeRune_shorter)

declare ValidString.simps [simp del]

section \<open>Encoding a record: json.Marshal\<close>

text \<open>
  The record of the contract. Its two fields are Go strings; the struct tags give the
  JSON member names \<open>docStatus\<close> and \<open>owner\<close>.
\<close>

record StudentDoc =
  DocStatus :: string
  Owner :: string

definition hex :: "nat \<Rightarrow> char" where
  "hex n = ''0123456789abcdef'' ! n"

text \<open>
  The loop of \<open>(*encodeState).string\<close> with \<open>escapeHTML\<close> set, as \<open>json.Marshal\<close> calls it,
  on the rest of the string from index \<open>i\<close>. Bytes below \<open>0x80\<close> are copied, except the
  quote, the backslash, the control characters and \<open><\<close>, \<open>>\<close>, \<open>&\<close>, which are escaped.
  A byte that does not start a valid UTF-8 sequence is written as \<open>\ufffd\<close>; the
  separators \<open>U+2028\<close> and \<open>U+2029\<close> are escaped; every other rune is copied.
  (The control characters other than \<open>\n\<close>, \<open>\r\<close>, \<open>\t\<close> are written \<open>\u00XX\<close>, as the Go
  releases up to 1.21 do; later releases shorten two of them to \<open>\b\<close> and \<open>\f\<close>, which
  decode to the same bytes.)
\<close>

function encodeString_loop :: "string \<Rightarrow> bytes" where
  "encodeString_loop s =
     (if s = [] then []
      else
        let c = s ! 0; b = byte c in
        if b < 0x80 then
          (if 0x20 \<le> b \<and> c \<noteq> CHR 0x5C \<and> c \<noteq> CHR 0x22
              \<and> c \<noteq> CHR ''<'' \<and> c \<noteq> CHR ''>'' \<and> c \<noteq> CHR ''&''
           then [c]
           else if c = CHR 0x5C \<or> c = CHR 0x22 then [CHR 0x5C, c]
           else if c = CHR 0x0A then [CHR 0x5C, CHR ''n'']
           else if c = CHR 0x0D then [CHR 0x5C, CHR ''r'']
           else if c = CHR 0x09 then [CHR 0x5C, CHR ''t'']
           else [CHR 0x5C, CHR ''u'', CHR ''0'', CHR ''0'', hex (b div 16), hex (b mod 16)])
          @ encodeString_loop (drop 1 s)
        else
          let (r, w) = DecodeRune s in
          if r = RuneError \<and> w = 1
            then [CHR 0x5C, CHR ''u'', CHR ''f'', CHR ''f'', CHR ''f'', CHR ''d'']
                 @ encodeString_loop (drop w s)
          else if r = 0x2028 \<or> r = 0x2029
            then [CHR 0x5C, CHR ''u'', CHR ''2'', CHR ''0'', CHR ''2'', hex (r mod 16)]
                 @ encodeString_loop (drop w s)
          else take w s @ encodeString_loop (drop w s))"
  by pat_completeness auto
termination
  by (relation "measure length") (auto dest: DecodeRune_shorter)

declare encodeString_loop.simps [simp del]

definition encodeString :: "string \<Rightarrow> bytes" where
  "encodeString s = [CHR 0x22] @ encodeString_loop s @ [CHR 0x22]"

text \<open>
  \<open>json.Marshal\<close> of a \<open>StudentDoc\<close>: the two members in the order of the fields. It
  returns no error for this type, and every caller discards the error result.
\<close>

definition Marshal :: "StudentDoc \<Rightarrow> bytes" where
  \<open>Marshal v = ''{"docStatus":'' @ encodeString (DocStatus v)
     @ '',"owner":'' @ encodeString (Owner v) @ ''}''\<close>

section \<open>Decoding a record: json.Unmarshal\<close>

subsection \<open>The scanner that validates the text\<close>

text \<open>
  \<open>json.Unmarshal\<close> first runs \<open>checkValid\<close> over the whole input: a state machine that
  reads one byte at a time. Its state is the current step function, the stack of
  enclosing objects and arrays (the head of the list is the innermost), whether the
  top-level value has ended, and whether an error was met. The scan codes that the step
  functions return matter to \<open>checkValid\<close> only through the error, which is recorded in the
  state, so the model keeps the state alone.
\<close>

datatype scan_step =
    stateBeginValueOrEmpty | stateBeginValue | stateBeginStringOrEmpty | stateBeginString
  | stateEndValue | stateEndTop
  | stateInString | stateInStringEsc | stateInStringEscU | stateInStringEscU1
  | stateInStringEscU12 | stateInStringEscU123
  | stateNeg | state1 | state0 | stateDot | stateDot0 | stateE | stateESign | stateE0
  | stateT | stateTr | stateTru | stateF | stateFa | stateFal | stateFals
  | stateN | stateNu | stateNul
  | stateError

datatype parse_state = parseObjectKey | parseObjectValue | parseArrayValue

record scanner =
  step :: scan_step
  endTop :: bool
  parseState :: "parse_state list"
  err :: bool

definition reset :: scanner where
  "reset = \<lparr>step = stateBeginValue, endTop = False, parseState = [], err = False\<rparr>"

definition isSpace :: "char \<Rightarrow> bool" where
  "isSpace c = (c = CHR '' '' \<or> c = CHR 0x09 \<or> c = CHR 0x0D \<or> c = CHR 0x0A)"

definition isDigit :: "char \<Rightarrow> bool" where
  "isDigit c = (CHR ''0'' \<le> c \<and> c \<le> CHR ''9'')"

definition isHex :: "char \<Rightarrow> bool" where
  "isHex c = (CHR ''0'' \<le> c \<and> c \<le> CHR ''9'' \<or> CHR ''a'' \<le> c \<and> c \<le> CHR ''f''
              \<or> CHR ''A'' \<le> c \<and> c \<le> CHR ''F'')"

definition scan_error :: "scanner \<Rightarrow> scanner" where
  "scan_error s = s\<lparr>step := stateError, err := True\<rparr>"

definition popParseState :: "scanner \<Rightarrow> scanner" where
  "popParseState s =
     (let n = tl (parseState s) in
      if n = [] then s\<lparr>parseState := n, step := stateEndTop, endTop := True\<rparr>
      else s\<lparr>parseState := n, step := stateEndValue\<rparr>)"

definition pushParseState :: "scanner \<Rightarrow> parse_state \<Rightarrow> scanner" where
  "pushParseState s p = s\<lparr>parseState := p # parseState s\<rparr>"

definition stepEndTop :: "scanner \<Rightarrow> char \<Rightarrow> scanner" where
  "stepEndTop s c = (if \<not> isSpace c then scan_error s else s)"

definition stepEndValue :: "scanner \<Rightarrow> char \<Rightarrow> scanner" where
  "stepEndValue s c =
     (case parseState s of
        [] \<Rightarrow> stepEndTop (s\<lparr>step := stateEndTop, endTop := True\<rparr>) c
      | ps # rest \<Rightarrow>
          if isSpace c then s\<lparr>step := stateEndValue\<rparr>
          else (case ps of
              parseObjectKey \<Rightarrow>
                if c = CHR '':'' then s\<lparr>parseState := parseObjectValue # rest, step := stateBeginValue\<rparr>
                else scan_error s
            | parseObjectValue \<Rightarrow>
                if c = CHR '','' then s\<lparr>parseState := parseObjectKey # rest, step := stateBeginString\<rparr>
                else if c = CHR ''}'' then popParseState s
                else scan_error s
            | parseArrayValue \<Rightarrow>
                if c = CHR '','' then s\<lparr>step := stateBeginValue\<rparr>
                else if c = CHR '']'' then popParseState s
                else scan_error s))"

definition stepBeginValue :: "scanner \<Rightarrow> char \<Rightarrow> scanner" where
  \<open>stepBeginValue s c =
     (if isSpace c then s
      else if c = CHR ''{'' then pushParseState (s\<lparr>step := stateBeginStringOrEmpty\<rparr>) parseObjectKey
      else if c = CHR ''['' then pushParseState (s\<lparr>step := stateBeginValueOrEmpty\<rparr>) parseArrayValue
      else if c = CHR ''"'' then s\<lparr>step := stateInString\<rparr>
      else if c = CHR ''-'' then s\<lparr>step := stateNeg\<rparr>
      else if c = CHR ''0'' then s\<lparr>step := state0\<rparr>
      else if c = CHR ''t'' then s\<lparr>step := stateT\<rparr>
      else if c = CHR ''f'' then s\<lparr>step := stateF\<rparr>
      else if c = CHR ''n'' then s\<lparr>step := stateN\<rparr>
      else if CHR ''1'' \<le> c \<and> c \<le> CHR ''9'' then s\<lparr>step := state1\<rparr>
      else scan_error s)\<close>

definition stepBeginString :: "scanner \<Rightarrow> char \<Rightarrow> scanner" where
  \<open>stepBeginString s c =
     (if isSpace c then s
      else if c = CHR ''"'' then s\<lparr>step := stateInString\<rparr>
      else scan_error s)\<close>

definition step0 :: "scanner \<Rightarrow> char \<Rightarrow> scanner" where
  "step0 s c =
     (if c = CHR ''.'' then s\<lparr>step := stateDot\<rparr>
      else if c = CHR ''e'' \<or> c = CHR ''E'' then s\<lparr>step := stateE\<rparr>
      else stepEndValue s c)"

definition stepESign :: "scanner \<Rightarrow> char \<Rightarrow> scanner" where
  "stepESign s c = (if isDigit c then s\<lparr>step := stateE0\<rparr> else scan_error s)"

definition expect :: "scanner \<Rightarrow> char \<Rightarrow> char \<Rightarrow> scan_step \<Rightarrow> scanner" where
  "expect s c want next = (if c = want then s\<lparr>step := next\<rparr> else scan_error s)"

text \<open>One call \<open>s.step(s, c)\<close>: the step function that the state holds, applied to \<open>c\<close>.\<close>

definition scan_byte :: "scanner \<Rightarrow> char \<Rightarrow> scanner" where
  \<open>scan_byte s c =
     (case step s of
        stateBeginValueOrEmpty \<Rightarrow>
          if isSpace c then s
          else if c = CHR '']'' then stepEndValue s c
          else stepBeginValue s c
      | stateBeginValue \<Rightarrow> stepBeginValue s c
      | stateBeginStringOrEmpty \<Rightarrow>
          if isSpace c then s
          else if c = CHR ''}''
            then stepEndValue (s\<lparr>parseState := parseObjectValue # tl (parseState s)\<rparr>) c
          else stepBeginString s c
      | stateBeginString \<Rightarrow> stepBeginString s c
      | stateEndValue \<Rightarrow> stepEndValue s c
      | stateEndTop \<Rightarrow> stepEndTop s c
      | stateInString \<Rightarrow>
          if c = CHR ''"'' then s\<lparr>step := stateEndValue\<rparr>
          else if c = CHR 0x5C then s\<lparr>step := stateInStringEsc\<rparr>
          else if byte c < 0x20 then scan_error s
          else s
      | stateInStringEsc \<Rightarrow>
          if c = CHR ''b'' \<or> c = CHR ''f'' \<or> c = CHR ''n'' \<or> c = CHR ''r'' \<or> c = CHR ''t''
             \<or> c = CHR 0x5C \<or> c = CHR ''/'' \<or> c = CHR ''"''
            then s\<lparr>step := stateInString\<rparr>
          else if c = CHR ''u'' then s\<lparr>step := stateInStringEscU\<rparr>
          else scan_error s
      | stateInStringEscU \<Rightarrow> if isHex c then s\<lparr>step := stateInStringEscU1\<rparr> else scan_error s
      | stateInStringEscU1 \<Rightarrow> if isHex c then s\<lparr>step := stateInStringEscU12\<rparr> else scan_error s
      | stateInStringEscU12 \<Rightarrow> if isHex c then s\<lparr>step := stateInStringEscU123\<rparr> else scan_error s
      | stateInStringEscU123 \<Rightarrow> if isHex c then s\<lparr>step := stateInString\<rparr> else scan_error s
      | stateNeg \<Rightarrow>
          if c = CHR ''0'' then s\<lparr>step := state0\<rparr>
          else if CHR ''1'' \<le> c \<and> c \<le> CHR ''9'' then s\<lparr>step := state1\<rparr>
          else scan_error s
      | state1 \<Rightarrow> if isDigit c then s\<lparr>step := state1\<rparr> else step0 s c
      | state0 \<Rightarrow> step0 s c
      | stateDot \<Rightarrow> if isDigit c then s\<lparr>step := stateDot0\<rparr> else scan_error s
      | stateDot0 \<Rightarrow>
          if isDigit c then s
          else if c = CHR ''e'' \<or> c = CHR ''E'' then s\<lparr>step := stateE\<rparr>
          else stepEndValue s c
      | stateE \<Rightarrow>
          if c = CHR ''+'' \<or> c = CHR ''-'' then s\<lparr>step := stateESign\<rparr> else stepESign s c
      | stateESign \<Rightarrow> stepESign s c
      | stateE0 \<Rightarrow> if isDigit c then s else stepEndValue s c
      | stateT \<Rightarrow> expect s c (CHR ''r'') stateTr
      | stateTr \<Rightarrow> expect s c (CHR ''u'') stateTru
      | stateTru \<Rightarrow> expect s c (CHR ''e'') stateEndValue
      | stateF \<Rightarrow> expect s c (CHR ''a'') stateFa
      | stateFa \<Rightarrow> expect s c (CHR ''l'') stateFal
      | stateFal \<Rightarrow> expect s c (CHR ''s'') stateFals
      | stateFals \<Rightarrow> expect s c (CHR ''e'') stateEndValue
      | stateN \<Rightarrow> expect s c (CHR ''u'') stateNu
      | stateNu \<Rightarrow> expect s c (CHR ''l'') stateNul
      | stateNul \<Rightarrow> expect s c (CHR ''l'') stateEndValue
      | stateError \<Rightarrow> s)\<close>

text \<open>
  \<open>scanner.eof\<close> and \<open>checkValid\<close>: the text is valid when no byte led to an error and the
  top-level value has ended, if need be after one more space.
\<close>

definition eof :: "scanner \<Rightarrow> bool" where
  "eof s = (if err s then False
            else if endTop s then True
            else endTop (scan_byte s (CHR '' '')))"

definition checkValid :: "bytes \<Rightarrow> bool" where
  "checkValid data = eof (foldl scan_byte reset data)"

subsection \<open>The extent of the next value\<close>

text \<open>
  \<open>nextValue\<close> feeds the text to a fresh scanner until the first value has ended, and
  splits the text there. \<open>valueLength\<close> is its loop: it returns how many bytes the value
  has. An object or array ends with its closing bracket, which empties the stack; any
  other value ends before the first byte that cannot continue it (the scanner reports
  \<open>scanEnd\<close> there, whether or not that byte may follow a top-level value).
\<close>

fun valueLength :: "scanner \<Rightarrow> bytes \<Rightarrow> nat option" where
  "valueLength sc [] = (if eof sc then Some 0 else None)"
| "valueLength sc (c # data) =
     (let sc' = scan_byte sc c in
      if endTop sc' then (if parseState sc \<noteq> [] then Some 1 else Some 0)
      else if err sc' then None
      else map_option Suc (valueLength sc' data))"

definition nextValue :: "bytes \<Rightarrow> (bytes \<times> bytes) option" where
  "nextValue data = map_option (\<lambda>n. (take n data, drop n data)) (valueLength reset data)"

definition skipSpace :: "bytes \<Rightarrow> bytes" where
  "skipSpace data = dropWhile isSpace data"

subsection \<open>String literals: unquoteBytes\<close>

definition hexval :: "char \<Rightarrow> nat" where
  "hexval c = (if CHR ''0'' \<le> c \<and> c \<le> CHR ''9'' then byte c - 48
               else if CHR ''a'' \<le> c \<and> c \<le> CHR ''f'' then byte c - 87
               else byte c - 55)"

text \<open>\<open>getu4\<close>: the value of a \<open>\uXXXX\<close> escape at the start of \<open>s\<close>; \<open>None\<close> is Go's \<open>-1\<close>.\<close>

definition getu4 :: "bytes \<Rightarrow> nat option" where
  "getu4 s =
     (if length s < 6 \<or> s ! 0 \<noteq> CHR 0x5C \<or> s ! 1 \<noteq> CHR ''u'' then None
      else if isHex (s ! 2) \<and> isHex (s ! 3) \<and> isHex (s ! 4) \<and> isHex (s ! 5)
        then Some (hexval (s ! 2) * 4096 + hexval (s ! 3) * 256 + hexval (s ! 4) * 16
                   + hexval (s ! 5))
      else None)"

definition IsSurrogate :: "nat \<Rightarrow> bool" where
  "IsSurrogate r = (0xD800 \<le> r \<and> r < 0xE000)"

text \<open>\<open>utf16.DecodeRune\<close> of a surrogate pair; \<open>U+FFFD\<close> when the pair is not valid.\<close>

definition utf16_DecodeRune :: "nat \<Rightarrow> nat option \<Rightarrow> nat" where
  "utf16_DecodeRune r1 r2 =
     (case r2 of
        None \<Rightarrow> 0xFFFD
      | Some x \<Rightarrow>
          if 0xD800 \<le> r1 \<and> r1 < 0xDC00 \<and> 0xDC00 \<le> x \<and> x < 0xE000
          then (r1 - 0xD800) * 1024 + (x - 0xDC00) + 0x10000
          else 0xFFFD)"

definition put :: "bytes \<Rightarrow> bytes option \<Rightarrow> bytes option" where
  "put b r = map_option (\<lambda>t. b @ t) r"

text \<open>
  The loop of \<open>unquoteBytes\<close> over the inside of a literal, from index \<open>r\<close> on: it resolves
  the escapes and writes every rune again in UTF-8, so that an invalid byte becomes
  \<open>U+FFFD\<close>. (The Go code returns the input slice itself when it holds nothing to
  resolve; that is what this loop computes for such a slice.)
\<close>

function unquote_loop :: "bytes \<Rightarrow> bytes option" where
  \<open>unquote_loop s =
     (if s = [] then Some []
      else
        let c = s ! 0 in
        if c = CHR 0x5C then
          (if length s < 2 then None
           else
             let e = s ! 1 in
             if e = CHR ''"'' \<or> e = CHR 0x5C \<or> e = CHR ''/'' \<or> e = CHR 0x27
               then put [e] (unquote_loop (drop 2 s))
             else if e = CHR ''b'' then put [CHR 0x08] (unquote_loop (drop 2 s))
             else if e = CHR ''f'' then put [CHR 0x0C] (unquote_loop (drop 2 s))
             else if e = CHR ''n'' then put [CHR 0x0A] (unquote_loop (drop 2 s))
             else if e = CHR ''r'' then put [CHR 0x0D] (unquote_loop (drop 2 s))
             else if e = CHR ''t'' then put [CHR 0x09] (unquote_loop (drop 2 s))
             else if e = CHR ''u'' then
               (case getu4 s of
                  None \<Rightarrow> None
                | Some rr \<Rightarrow>
                    if IsSurrogate rr then
                      (let dec = utf16_DecodeRune rr (getu4 (drop 6 s)) in
                       if dec \<noteq> 0xFFFD then put (EncodeRune dec) (unquote_loop (drop 12 s))
                       else put (EncodeRune 0xFFFD) (unquote_loop (drop 6 s)))
                    else put (EncodeRune rr) (unquote_loop (drop 6 s)))
             else None)
        else if c = CHR ''"'' \<or> byte c < 0x20 then None
        else if byte c < 0x80 then put [c] (unquote_loop (drop 1 s))
        else
          let (rr, w) = DecodeRune s in
          put (EncodeRune rr) (unquote_loop (drop w s)))\<close>
  by pat_completeness auto
termination
  by (relation "measure length") (auto dest: DecodeRune_shorter)

declare unquote_loop.simps [simp del]

definition unquoteBytes :: "bytes \<Rightarrow> bytes option" where
  \<open>unquoteBytes s =
     (if length s < 2 \<or> s ! 0 \<noteq> CHR ''"'' \<or> s ! (length s - 1) \<noteq> CHR ''"'' then None
      else unquote_loop (take (length s - 2) (drop 1 s)))\<close>

subsection \<open>Matching a member name to a field\<close>

datatype field = fieldDocStatus | fieldOwner

definition fieldName :: "field \<Rightarrow> bytes" where
  "fieldName f = (case f of fieldDocStatus \<Rightarrow> ''docStatus'' | fieldOwner \<Rightarrow> ''owner'')"

text \<open>\<open>b & caseMask\<close>, with \<open>caseMask = ^byte(0x20)\<close>: bit 5 cleared.\<close>

definition caseMasked :: "char \<Rightarrow> nat" where
  "caseMasked c = (if (byte c div 32) mod 2 = 1 then byte c - 32 else byte c)"

text \<open>
  The two folding functions that \<open>foldFunc\<close> selects for the names of this record:
  \<open>equalFoldRight\<close> for \<open>docStatus\<close>, which holds an \<open>s\<close> (so that the long s \<open>U+017F\<close>
  matches), and \<open>simpleLetterEqualFold\<close> for \<open>owner\<close>.
\<close>

fun equalFoldRight :: "bytes \<Rightarrow> bytes \<Rightarrow> bool" where
  "equalFoldRight [] t = (t = [])"
| "equalFoldRight (sb # s) t =
     (if t = [] then False
      else
        let tb = t ! 0 in
        if byte tb < 0x80 then
          (if sb \<noteq> tb then
             (let sbUpper = caseMasked sb in
              if 0x41 \<le> sbUpper \<and> sbUpper \<le> 0x5A then
                (if sbUpper \<noteq> caseMasked tb then False else equalFoldRight s (drop 1 t))
              else False)
           else equalFoldRight s (drop 1 t))
        else
          let (tr, w) = DecodeRune t in
          if sb = CHR ''s'' \<or> sb = CHR ''S'' then
            (if tr \<noteq> 0x17F then False else equalFoldRight s (drop w t))
          else if sb = CHR ''k'' \<or> sb = CHR ''K'' then
            (if tr \<noteq> 0x212A then False else equalFoldRight s (drop w t))
          else False)"

definition simpleLetterEqualFold :: "bytes \<Rightarrow> bytes \<Rightarrow> bool" where
  "simpleLetterEqualFold s t = list_all2 (\<lambda>a b. caseMasked a = caseMasked b) s t"

definition equalFold :: "field \<Rightarrow> bytes \<Rightarrow> bool" where
  "equalFold f key =
     (case f of
        fieldDocStatus \<Rightarrow> equalFoldRight (fieldName f) key
      | fieldOwner \<Rightarrow> simpleLetterEqualFold (fieldName f) key)"

text \<open>
  The search of \<open>(*decodeState).object\<close> through the fields, in their order: an exact
  match ends it; otherwise the first field that matches under folding is taken.
\<close>

fun findField :: "field list \<Rightarrow> bytes \<Rightarrow> field option \<Rightarrow> field option" where
  "findField [] key f = f"
| "findField (ff # fs) key f =
     (if fieldName ff = key then Some ff
      else if f = None \<and> equalFold ff key then findField fs key (Some ff)
      else findField fs key f)"

subsection \<open>The decoder\<close>

datatype json_error = SyntaxError | UnmarshalTypeError | errPhase

definition saveError :: "json_error option \<Rightarrow> json_error \<Rightarrow> json_error option" where
  "saveError e x = (case e of None \<Rightarrow> Some x | Some y \<Rightarrow> Some y)"

definition setField :: "field \<Rightarrow> string \<Rightarrow> StudentDoc \<Rightarrow> StudentDoc" where
  "setField f s v =
     (case f of fieldDocStatus \<Rightarrow> v\<lparr>DocStatus := s\<rparr> | fieldOwner \<Rightarrow> v\<lparr>Owner := s\<rparr>)"

text \<open>
  A member's value, whose text is \<open>item\<close>, stored into a string field: a string literal
  sets the field; \<open>null\<close> leaves it as it is; a number, \<open>true\<close>, \<open>false\<close>, an object or an
  array is a type error, which is saved (the first one is kept) while decoding goes
  on. A member whose name matches no field is skipped.
\<close>

definition store :: "field option \<Rightarrow> bytes \<Rightarrow> StudentDoc \<Rightarrow> json_error option
    \<Rightarrow> StudentDoc \<times> json_error option" where
  \<open>store f item v e =
     (case f of
        None \<Rightarrow> (v, e)
      | Some fld \<Rightarrow>
          if item = [] then (v, Some errPhase)
          else
            let c = item ! 0 in
            if c = CHR ''{'' \<or> c = CHR ''['' then (v, saveError e UnmarshalTypeError)
            else if c = CHR ''n'' then (v, e)
            else if c = CHR ''t'' \<or> c = CHR ''f'' then (v, saveError e UnmarshalTypeError)
            else if c = CHR ''"'' then
              (case unquoteBytes item of
                 None \<Rightarrow> (v, Some errPhase)
               | Some s \<Rightarrow> (setField fld s v, e))
            else (v, saveError e UnmarshalTypeError))\<close>

text \<open>
  The loop of \<open>(*decodeState).object\<close> into a \<open>StudentDoc\<close>, on the text after the opening
  brace or after a comma. The steps that the Go code guards with \<open>errPhase\<close> cannot fail
  on a text that \<open>checkValid\<close> has accepted; the model keeps them as that error.
\<close>

function object :: "bytes \<Rightarrow> StudentDoc \<Rightarrow> json_error option \<Rightarrow> StudentDoc \<times> json_error option" where
  \<open>object data v e =
     (case skipSpace data of
        [] \<Rightarrow> (v, Some errPhase)
      | c # _ \<Rightarrow>
          if c = CHR ''}'' then (v, e)
          else if c \<noteq> CHR ''"'' then (v, Some errPhase)
          else
            (case nextValue (skipSpace data) of
               None \<Rightarrow> (v, Some errPhase)
             | Some (item, rest) \<Rightarrow>
                 (case unquoteBytes item of
                    None \<Rightarrow> (v, Some errPhase)
                  | Some key \<Rightarrow>
                      (case skipSpace rest of
                         [] \<Rightarrow> (v, Some errPhase)
                       | c1 # rest1 \<Rightarrow>
                           if c1 \<noteq> CHR '':'' then (v, Some errPhase)
                           else
                             (case nextValue (skipSpace rest1) of
                                None \<Rightarrow> (v, Some errPhase)
                              | Some (item2, rest2) \<Rightarrow>
                                  let (v', e') =
                                    store (findField [fieldDocStatus, fieldOwner] key None)
                                      item2 v e
                                  in
                                  if e' = Some errPhase then (v', e')
                                  else
                                    (case skipSpace rest2 of
                                       [] \<Rightarrow> (v', Some errPhase)
                                     | c2 # rest3 \<Rightarrow>
                                         if c2 = CHR ''}'' then (v', e')
                                         else if c2 = CHR '','' then object rest3 v' e'
                                         else (v', Some errPhase)))))))\<close>
  by pat_completeness auto

lemma length_skipSpace: "length (skipSpace data) \<le> length data"
  by (simp add: skipSpace_def length_dropWhile_le)

lemma length_nextValue: "nextValue data = Some (item, rest) \<Longrightarrow> length rest \<le> length data"
  by (auto simp: nextValue_def)

lemma object_shorter:
  assumes "skipSpace data = c # x" "nextValue (skipSpace data) = Some (item, rest)"
    "skipSpace rest = c1 # rest1" "nextValue (skipSpace rest1) = Some (item2, rest2)"
    "skipSpace rest2 = c2 # rest3"
  shows "length rest3 < length data"
proof -
  have "length rest3 < length rest2"
    using length_skipSpace [of rest2] assms(5) by simp
  also have "\<dots> \<le> length (skipSpace rest1)"
    using length_nextValue [OF assms(4)] .
  also have "\<dots> \<le> length rest1"
    by (rule length_skipSpace)
  also have "\<dots> \<le> length rest"
    using length_skipSpace [of rest] assms(3) by simp
  also have "\<dots> \<le> length (skipSpace data)"
    using length_nextValue [OF assms(2)] .
  also have "\<dots> \<le> length data"
    by (rule length_skipSpace)
  finally show ?thesis .
qed

termination object
  by (relation "measure (\<lambda>(data, v, e). length data)") (auto intro: object_shorter)

declare object.simps [simp del]

text \<open>
  \<open>json.Unmarshal(data, &v)\<close> for a \<open>StudentDoc\<close> \<open>v\<close>: the record after the call and the
  error returned. A text that is not valid JSON leaves the record untouched. A valid
  text is decoded: an object member by member, \<open>null\<close> into nothing, any other value
  into a type error.
\<close>

definition Unmarshal :: "bytes \<Rightarrow> StudentDoc \<Rightarrow> StudentDoc \<times> json_error option" where
  \<open>Unmarshal data v =
     (if \<not> checkValid data then (v, Some SyntaxError)
      else
        (case skipSpace data of
           [] \<Rightarrow> (v, Some errPhase)
         | c # rest \<Rightarrow>
             if c = CHR ''{'' then object rest v None
             else if c = CHR ''n'' then (v, None)
             else (v, Some UnmarshalTypeError)))\<close>

section \<open>The ledger that the host provides\<close>

text \<open>
  The contract reaches the ledger through \<open>shim.ChaincodeStubInterface\<close>. The host is
  modelled by its contract: a world state of key and value pairs in which \<open>PutState\<close>
  takes effect and \<open>GetState\<close> returns the stored bytes, or nothing for an absent key;
  a range query that yields the pairs of the state in byte order of their keys, from
  the start key up to but excluding the end key; and a history per key that the host
  keeps on its own. The handlers discard the error results of \<open>GetState\<close> and \<open>PutState\<close>;
  the errors of the two queries, which the handlers test, are part of the model: opening
  a query may fail, and so may each call of \<open>Next\<close>. An invocation is taken as committed
  when it returns, so that the next invocation reads what it wrote.

  The world state is an association list in which the first pair of a key is the live
  one. An iterator is the list of the results that its calls of \<open>Next\<close> will give, each an
  error or an item; \<open>HasNext\<close> holds while the list is not empty.
\<close>

record Timestamp =
  Seconds :: int
  Nanos :: int

record KeyModification =
  TxId :: string
  Value :: bytes
  Timestamp :: Timestamp
  IsDelete :: bool

datatype scan_fault = NoFault | OpenFault string | NextFault nat string

record ChaincodeStub =
  State :: "(string \<times> bytes) list"
  History :: "string \<Rightarrow> string + (string + KeyModification) list"
  RangeFault :: scan_fault

definition GetState :: "ChaincodeStub \<Rightarrow> string \<Rightarrow> bytes" where
  "GetState stub key = (case map_of (State stub) key of None \<Rightarrow> [] | Some v \<Rightarrow> v)"

definition PutState :: "ChaincodeStub \<Rightarrow> string \<Rightarrow> bytes \<Rightarrow> ChaincodeStub" where
  "PutState stub key v = stub\<lparr>State := AList.update key v (State stub)\<rparr>"

definition inRange :: "string \<Rightarrow> string \<Rightarrow> string \<times> bytes \<Rightarrow> bool" where
  "inRange startKey endKey kv = (startKey \<le> fst kv \<and> fst kv < endKey)"

definition rangeItems :: "(string \<times> bytes) list \<Rightarrow> string \<Rightarrow> string \<Rightarrow> (string \<times> bytes) list" where
  "rangeItems st startKey endKey =
     sort_key fst (filter (inRange startKey endKey) (AList.clearjunk st))"

definition GetStateByRange :: "ChaincodeStub \<Rightarrow> string \<Rightarrow> string
    \<Rightarrow> string + (string + string \<times> bytes) list" where
  "GetStateByRange stub startKey endKey =
     (let items = rangeItems (State stub) startKey endKey in
      case RangeFault stub of
        NoFault \<Rightarrow> Inr (map Inr items)
      | OpenFault msg \<Rightarrow> Inl msg
      | NextFault n msg \<Rightarrow>
          if n < length items then Inr (map Inr (take n items) @ [Inl msg])
          else Inr (map Inr items))"

definition GetHistoryForKey :: "ChaincodeStub \<Rightarrow> string
    \<Rightarrow> string + (string + KeyModification) list" where
  "GetHistoryForKey stub key = History stub key"

section \<open>The contract\<close>

text \<open>
  A response is \<open>shim.Success(payload)\<close> or \<open>shim.Error(message)\<close>. Every handler takes
  the stub and returns its response with the stub after the call. The trace output
  that some handlers print is not part of the model.
\<close>

datatype Response = Success bytes | Error string

definition Init :: "ChaincodeStub \<Rightarrow> Response \<times> ChaincodeStub" where
  "Init stub = (Success [], stub)"

definition queryStudentDoc :: "ChaincodeStub \<Rightarrow> string list \<Rightarrow> Response \<times> ChaincodeStub" where
  "queryStudentDoc stub args =
     (if length args \<noteq> 1 then (Error ''Incorrect number of arguments. Expecting 1'', stub)
      else
        let studentDocAsBytes = GetState stub (args ! 0) in
        (Success studentDocAsBytes, stub))"

subsection \<open>initLedger\<close>

definition studentDocs :: "StudentDoc list" where
  "studentDocs =
     [\<lparr>DocStatus = ''scanned'', Owner = ''Tomoko''\<rparr>,
      \<lparr>DocStatus = ''transmitted responses'', Owner = ''Jack''\<rparr>,
      \<lparr>DocStatus = ''received responses'', Owner = ''John''\<rparr>,
      \<lparr>DocStatus = ''machine scored'', Owner = ''Mark''\<rparr>,
      \<lparr>DocStatus = ''human scored'', Owner = ''Tim''\<rparr>,
      \<lparr>DocStatus = ''scores exported'', Owner = ''Jane''\<rparr>,
      \<lparr>DocStatus = ''transmitted scores'', Owner = ''Peter''\<rparr>,
      \<lparr>DocStatus = ''received scores'', Owner = ''Sid''\<rparr>,
      \<lparr>DocStatus = ''scores reported'', Owner = ''Mesut''\<rparr>]"

text \<open>\<open>strconv.Itoa\<close>: the decimal digits of an integer.\<close>

function digits :: "nat \<Rightarrow> string" where
  "digits n = (if n < 10 then [char_of (48 + n)]
               else digits (n div 10) @ [char_of (48 + n mod 10)])"
  by pat_completeness auto
termination
  by (relation "measure id") auto

declare digits.simps [simp del]

definition Itoa :: "int \<Rightarrow> string" where
  "Itoa i = (if i < 0 then CHR ''-'' # digits (nat (- i)) else digits (nat i))"

function initLedger_loop :: "StudentDoc list \<Rightarrow> nat \<Rightarrow> ChaincodeStub \<Rightarrow> ChaincodeStub" where
  "initLedger_loop docs i stub =
     (if i < length docs then
        let studentDocAsBytes = Marshal (docs ! i) in
        initLedger_loop docs (i + 1)
          (PutState stub (''StudentDoc'' @ Itoa (int i)) studentDocAsBytes)
      else stub)"
  by pat_completeness auto
termination
  by (relation "measure (\<lambda>(docs, i, stub). length docs - i)") auto

declare initLedger_loop.simps [simp del]

definition initLedger :: "ChaincodeStub \<Rightarrow> Response \<times> ChaincodeStub" where
  "initLedger stub = (Success [], initLedger_loop studentDocs 0 stub)"

subsection \<open>createStudentDoc\<close>

definition createStudentDoc :: "ChaincodeStub \<Rightarrow> string list \<Rightarrow> Response \<times> ChaincodeStub" where
  "createStudentDoc stub args =
     (if length args \<noteq> 3 then (Error ''Incorrect number of arguments. Expecting 3'', stub)
      else
        let studentDoc = \<lparr>DocStatus = args ! 1, Owner = args ! 2\<rparr>;
            studentDocAsBytes = Marshal studentDoc
        in (Success [], PutState stub (args ! 0) studentDocAsBytes))"

subsection \<open>queryAllStudentDocs\<close>

text \<open>
  The loop over the iterator, with the buffer written so far and the flag
  \<open>bArrayMemberAlreadyWritten\<close>; an error of \<open>Next\<close> ends it.
\<close>

fun queryAll_loop :: "(string + string \<times> bytes) list \<Rightarrow> bytes \<Rightarrow> bool \<Rightarrow> string + bytes" where
  "queryAll_loop [] buffer written = Inr buffer"
| "queryAll_loop (Inl msg # it) buffer written = Inl msg"
| \<open>queryAll_loop (Inr (k, v) # it) buffer written =
     queryAll_loop it
       ((if written then buffer @ '','' else buffer)
        @ ''{"Key":'' @ ''"'' @ k @ ''"'' @ '', "Record":'' @ v @ ''}'')
       True\<close>

definition queryAllStudentDocs :: "ChaincodeStub \<Rightarrow> Response \<times> ChaincodeStub" where
  "queryAllStudentDocs stub =
     (let startKey = ''StudentDoc0''; endKey = ''StudentDoc999'' in
      case GetStateByRange stub startKey endKey of
        Inl msg \<Rightarrow> (Error msg, stub)
      | Inr resultsIterator \<Rightarrow>
          (case queryAll_loop resultsIterator ''['' False of
             Inl msg \<Rightarrow> (Error msg, stub)
           | Inr buffer \<Rightarrow> (Success (buffer @ '']''), stub)))"

subsection \<open>changeStudentDocOwner and changeStudentDocStatus\<close>

text \<open>Both discard the error that \<open>json.Unmarshal\<close> returns and go on with the record.\<close>

definition changeStudentDocOwner :: "ChaincodeStub \<Rightarrow> string list \<Rightarrow> Response \<times> ChaincodeStub" where
  "changeStudentDocOwner stub args =
     (if length args \<noteq> 2 then (Error ''Incorrect number of arguments. Expecting 2'', stub)
      else
        let studentDocAsBytes = GetState stub (args ! 0);
            studentDoc = \<lparr>DocStatus = [], Owner = []\<rparr>;
            studentDoc = fst (Unmarshal studentDocAsBytes studentDoc);
            studentDoc = studentDoc\<lparr>Owner := args ! 1\<rparr>;
            studentDocAsBytes = Marshal studentDoc
        in (Success [], PutState stub (args ! 0) studentDocAsBytes))"

definition changeStudentDocStatus :: "ChaincodeStub \<Rightarrow> string list \<Rightarrow> Response \<times> ChaincodeStub" where
  "changeStudentDocStatus stub args =
     (if length args \<noteq> 3 then (Error ''Incorrect number of arguments. Expecting 3'', stub)
      else
        let studentDocAsBytes = GetState stub (args ! 0);
            studentDoc = \<lparr>DocStatus = [], Owner = []\<rparr>;
            studentDoc = fst (Unmarshal studentDocAsBytes studentDoc);
            studentDoc = studentDoc\<lparr>Owner := args ! 1\<rparr>;
            studentDoc = studentDoc\<lparr>DocStatus := args ! 2\<rparr>;
            studentDocAsBytes = Marshal studentDoc
        in (Success [], PutState stub (args ! 0) studentDocAsBytes))"

subsection \<open>getHistoryForStudentDoc\<close>

text \<open>
  \<open>time.Unix(seconds, nanos).String()\<close> renders a time in the time zone of the machine
  that runs the contract; it is the parameter \<open>timeString\<close>. \<open>FormatBool\<close> is
  \<open>strconv.FormatBool\<close>.
\<close>

definition FormatBool :: "bool \<Rightarrow> string" where
  "FormatBool b = (if b then ''true'' else ''false'')"

fun history_loop :: "(int \<Rightarrow> int \<Rightarrow> string) \<Rightarrow> (string + KeyModification) list \<Rightarrow> bytes \<Rightarrow> bool
    \<Rightarrow> string + bytes" where
  "history_loop timeString [] buffer written = Inr buffer"
| "history_loop timeString (Inl msg # it) buffer written = Inl msg"
| \<open>history_loop timeString (Inr response # it) buffer written =
     history_loop timeString it
       ((if written then buffer @ '','' else buffer)
        @ ''{"TxId":'' @ ''"'' @ TxId response @ ''"''
        @ '', "Value":'' @ (if IsDelete response then ''null'' else Value response)
        @ '', "Timestamp":'' @ ''"''
        @ timeString (Seconds (Timestamp response)) (Nanos (Timestamp response)) @ ''"''
        @ '', "IsDelete":'' @ ''"'' @ FormatBool (IsDelete response) @ ''"''
        @ ''}'')
       True\<close>

definition getHistoryForStudentDoc :: "(int \<Rightarrow> int \<Rightarrow> string) \<Rightarrow> ChaincodeStub \<Rightarrow> string list
    \<Rightarrow> Response \<times> ChaincodeStub" where
  "getHistoryForStudentDoc timeString stub args =
     (if length args < 1 then (Error ''Incorrect number of arguments. Expecting 1'', stub)
      else
        let docId = args ! 0 in
        case GetHistoryForKey stub docId of
          Inl msg \<Rightarrow> (Error msg, stub)
        | Inr resultsIterator \<Rightarrow>
            (case history_loop timeString resultsIterator ''['' False of
               Inl msg \<Rightarrow> (Error msg, stub)
             | Inr buffer \<Rightarrow> (Success (buffer @ '']''), stub)))"

subsection \<open>Invoke\<close>

text \<open>
  \<open>fn\<close> and \<open>args\<close> are what \<open>APIstub.GetFunctionAndParameters()\<close> returns for the
  invocation.
\<close>

definition Invoke :: "(int \<Rightarrow> int \<Rightarrow> string) \<Rightarrow> ChaincodeStub \<Rightarrow> string \<Rightarrow> string list
    \<Rightarrow> Response \<times> ChaincodeStub" where
  "Invoke timeString stub fn args =
     (if fn = ''queryStudentDoc'' then queryStudentDoc stub args
      else if fn = ''initLedger'' then initLedger stub
      else if fn = ''createStudentDoc'' then createStudentDoc stub args
      else if fn = ''queryAllStudentDocs'' then queryAllStudentDocs stub
      else if fn = ''changeStudentDocOwner'' then changeStudentDocOwner stub args
      else if fn = ''changeStudentDocStatus'' then changeStudentDocStatus stub args
      else if fn = ''getHistoryForStudentDoc'' then getHistoryForStudentDoc timeString stub args
      else (Error (fn @ '': Invalid Smart Contract function name.''), stub))"

section \<open>What the claims speak of\<close>

text \<open>The seven names that \<open>Invoke\<close> recognises.\<close>

definition handlerNames :: "string list" where
  "handlerNames =
     [''queryStudentDoc'', ''initLedger'', ''createStudentDoc'', ''queryAllStudentDocs'',
      ''changeStudentDocOwner'', ''changeStudentDocStatus'', ''getHistoryForStudentDoc'']"

text \<open>
  A JSON array as the two query handlers are said to build it: the entries in their
  order, separated by commas, between brackets.
\<close>

fun joinComma :: "bytes list \<Rightarrow> bytes" where
  "joinComma [] = []"
| "joinComma [x] = x"
| "joinComma (x # y # ys) = x @ '','' @ joinComma (y # ys)"

definition jsonArray :: "bytes list \<Rightarrow> bytes" where
  "jsonArray items = ''['' @ joinComma items @ '']''"

text \<open>
  One entry of the history, as the specification describes it: the transaction, the
  value (\<open>null\<close> for a deletion, otherwise the stored bytes as they are), the time, and
  the deletion flag.
\<close>

definition historyEntry :: "(int \<Rightarrow> int \<Rightarrow> string) \<Rightarrow> KeyModification \<Rightarrow> bytes" where
  \<open>historyEntry timeString m =
     ''{"TxId":"'' @ TxId m
     @ ''", "Value":'' @ (if IsDelete m then ''null'' else Value m)
     @ '', "Timestamp":"'' @ timeString (Seconds (Timestamp m)) (Nanos (Timestamp m))
     @ ''", "IsDelete":"'' @ (if IsDelete m then ''true'' else ''false'') @ ''"}''\<close>

text \<open>
  A string coerced to valid UTF-8, as the documentation of \<open>encoding/json\<close> says of the
  strings that \<open>Marshal\<close> writes: every byte that does not start a valid sequence is
  replaced by \<open>U+FFFD\<close>, the rest is kept.
\<close>

function coerceUTF8 :: "string \<Rightarrow> string" where
  "coerceUTF8 s =
     (if s = [] then []
      else
        let (r, w) = DecodeRune s in
        if r = RuneError \<and> w = 1 then [CHR 0xEF, CHR 0xBF, CHR 0xBD] @ coerceUTF8 (drop 1 s)
        else take w s @ coerceUTF8 (drop w s))"
  by pat_completeness auto
termination
  by (relation "measure length") (auto dest: DecodeRune_shorter)

declare coerceUTF8.simps [simp del]

text \<open>The keys under which \<open>initLedger\<close> is said to write the seed records.\<close>

definition seedKeys :: "string list" where
  "seedKeys = [''StudentDoc0'', ''StudentDoc1'', ''StudentDoc2'', ''StudentDoc3'', ''StudentDoc4'',
               ''StudentDoc5'', ''StudentDoc6'', ''StudentDoc7'', ''StudentDoc8'']"

text \<open>One entry of the range query: the key and the stored bytes as they are.\<close>

definition rangeEntry :: "string \<times> bytes \<Rightarrow> bytes" where
  \<open>rangeEntry kv = ''{"Key":"'' @ fst kv @ ''", "Record":'' @ snd kv @ ''}''\<close>

text \<open>A sequence of writes to the world state, in order.\<close>

definition putAll :: "(string \<times> bytes) list \<Rightarrow> (string \<times> bytes) list \<Rightarrow> (string \<times> bytes) list" where
  "putAll es al = fold (\<lambda>kv. AList.update (fst kv) (snd kv)) es al"

text \<open>A small ledger and a history of two entries, for the examples below.\<close>

definition exampleStub :: ChaincodeStub where
  \<open>exampleStub =
     \<lparr>State = [(''doc1'', ''{"docStatus":"scanned","owner":"Alice"}'')],
      History = (\<lambda>key. Inr
        [Inr \<lparr>TxId = ''tx1'', Value = ''{"docStatus":"scanned","owner":"Alice"}'',
              Timestamp = \<lparr>Seconds = 1500000000, Nanos = 0\<rparr>, IsDelete = False\<rparr>,
         Inr \<lparr>TxId = ''tx2'', Value = [],
              Timestamp = \<lparr>Seconds = 1500000060, Nanos = 0\<rparr>, IsDelete = True\<rparr>]),
      RangeFault = NoFault\<rparr>\<close>

definition exampleTime :: "int \<Rightarrow> int \<Rightarrow> string" where
  "exampleTime seconds nanos = Itoa seconds"

text \<open>
  The same ledger with a record that is valid JSON but holds a number where the owner
  should be.
\<close>

definition mistypedStub :: ChaincodeStub where
  \<open>mistypedStub = exampleStub\<lparr>State := [(''doc1'', ''{"docStatus":"scanned","owner":7}'')]\<rparr>\<close>

text \<open>A record both of whose strings are valid UTF-8.\<close>

definition validDoc :: "StudentDoc \<Rightarrow> bool" where
  "validDoc v = (ValidString (DocStatus v) \<and> ValidString (Owner v))"

text \<open>Whether a text, after its leading space, begins a JSON object.\<close>

definition topLevelObject :: "bytes \<Rightarrow> bool" where
  "topLevelObject data = (case skipSpace data of [] \<Rightarrow> False | c # rest \<Rightarrow> c = CHR ''{'')"

text \<open>A ledger of two records, for the examples of a change to one of them.\<close>

definition twoDocStub :: ChaincodeStub where
  \<open>twoDocStub = exampleStub\<lparr>State :=
     [(''doc1'', ''{"docStatus":"scanned","owner":"Alice"}''),
      (''doc2'', ''{"docStatus":"machine scored","owner":"Mark"}'')]\<rparr>\<close>

text \<open>
  Two more ledgers whose record is valid JSON that does not fit: an array, and an
  object that has a number for the owner and no status.
\<close>

definition arrayStub :: ChaincodeStub where
  \<open>arrayStub = exampleStub\<lparr>State := [(''doc1'', ''[]'')]\<rparr>\<close>

definition numberOwnerStub :: ChaincodeStub where
  \<open>numberOwnerStub = exampleStub\<lparr>State := [(''doc1'', ''{"owner":7}'')]\<rparr>\<close>

text \<open>
  A history of one entry that is not a deletion and whose stored value is the JSON
  text \<open>null\<close>.
\<close>

definition storedNullStub :: ChaincodeStub where
  \<open>storedNullStub = exampleStub\<lparr>History := (\<lambda>key. Inr
     [Inr \<lparr>TxId = ''tx1'', Value = ''null'',
           Timestamp = \<lparr>Seconds = 1500000000, Nanos = 0\<rparr>, IsDelete = False\<rparr>])\<rparr>\<close>

section \<open>Properties of the codec\<close>

subsection \<open>Re-encoding a decoded rune\<close>

lemma divmod_block: "c < m \<Longrightarrow> (q * m + c) div m = q \<and> (q * m + c) mod m = (c::nat)"
  by simp

lemma split3:
  assumes "b < (64::nat)" "c < 64"
  shows "(a * 4096 + b * 64 + c) div 4096 = a"
    "((a * 4096 + b * 64 + c) div 64) mod 64 = b" "(a * 4096 + b * 64 + c) mod 64 = c"
proof -
  have e: "a * 4096 + b * 64 + c = (a * 64 + b) * 64 + c" by simp
  have e2: "a * 4096 + b * 64 + c = a * 4096 + (b * 64 + c)" by simp
  have lt: "b * 64 + c < 4096" using assms by simp
  show "(a * 4096 + b * 64 + c) div 4096 = a"
    unfolding e2 using lt divmod_block [of "b * 64 + c" 4096 a] by simp
  have "(a * 4096 + b * 64 + c) div 64 = a * 64 + b"
    unfolding e using assms(2) divmod_block [of c 64 "a * 64 + b"] by simp
  then show "((a * 4096 + b * 64 + c) div 64) mod 64 = b"
    using assms(1) divmod_block [of b 64 a] by simp
  show "(a * 4096 + b * 64 + c) mod 64 = c"
    unfolding e using assms(2) divmod_block [of c 64 "a * 64 + b"] by simp
qed

lemma split4:
  assumes "b < (64::nat)" "c < 64" "d < 64"
  shows "(a * 262144 + b * 4096 + c * 64 + d) div 262144 = a"
    "((a * 262144 + b * 4096 + c * 64 + d) div 4096) mod 64 = b"
    "((a * 262144 + b * 4096 + c * 64 + d) div 64) mod 64 = c"
    "(a * 262144 + b * 4096 + c * 64 + d) mod 64 = d"
proof -
  let ?r = "a * 262144 + b * 4096 + c * 64 + d"
  have e1: "?r = a * 262144 + (b * 4096 + c * 64 + d)" by simp
  have e2: "?r = (a * 64 + b) * 4096 + (c * 64 + d)" by simp
  have e3: "?r = (a * 4096 + b * 64 + c) * 64 + d" by simp
  have lt1: "b * 4096 + c * 64 + d < 262144" using assms by simp
  have lt2: "c * 64 + d < 4096" using assms by simp
  show "?r div 262144 = a"
    unfolding e1 using lt1 divmod_block [of "b * 4096 + c * 64 + d" 262144 a] by simp
  have "?r div 4096 = a * 64 + b"
    unfolding e2 using lt2 divmod_block [of "c * 64 + d" 4096 "a * 64 + b"] by simp
  then show "(?r div 4096) mod 64 = b"
    using assms(1) divmod_block [of b 64 a] by simp
  have "?r div 64 = a * 4096 + b * 64 + c"
    unfolding e3 using assms(3) divmod_block [of d 64 "a * 4096 + b * 64 + c"] by simp
  then show "(?r div 64) mod 64 = c"
    using split3(3) [OF assms(1,2)] by simp
  show "?r mod 64 = d"
    unfolding e3 using assms(3) divmod_block [of d 64 "a * 4096 + b * 64 + c"] by simp
qed

lemma EncodeRune_two:
  assumes "2 \<le> a" "a < 32" "b < 64"
  shows "EncodeRune (a * 64 + b) = [char_of (192 + a), char_of (128 + b)]"
proof -
  have "\<not> a * 64 + b \<le> 0x7F" using assms by simp
  moreover have "a * 64 + b \<le> 0x7FF" using assms by simp
  ultimately show ?thesis
    using divmod_block [of b 64 a] assms(3) by (simp add: EncodeRune_def)
qed

lemma EncodeRune_three:
  assumes "a < 16" "b < 64" "c < 64" "a = 0 \<longrightarrow> 32 \<le> b" "a = 13 \<longrightarrow> b < 32"
  shows "EncodeRune (a * 4096 + b * 64 + c)
           = [char_of (224 + a), char_of (128 + b), char_of (128 + c)]"
proof -
  let ?r = "a * 4096 + b * 64 + c"
  have lo: "\<not> ?r \<le> 0x7FF" using assms by (cases "a = 0") simp_all
  have hi: "?r \<le> 0xFFFF" using assms by simp
  have nosur: "\<not> (0xD800 \<le> ?r \<and> ?r \<le> 0xDFFF)"
  proof (cases "a = 13")
    case True
    then show ?thesis using assms by simp
  next
    case False
    then have "a < 13 \<or> 14 \<le> a" by arith
    then show ?thesis using assms by auto
  qed
  have c1: "(?r \<le> 0x7F) = False" using lo by simp
  have c2: "(?r \<le> 0x7FF) = False" using lo by simp
  have c3: "(0x10FFFF < ?r \<or> (0xD800 \<le> ?r \<and> ?r \<le> 0xDFFF)) = False"
    using hi nosur by simp
  have c4: "(?r \<le> 0xFFFF) = True" using hi by simp
  show ?thesis
    unfolding EncodeRune_def c1 c2 c3 c4 using split3 [OF assms(2,3), of a] by simp
qed

lemma EncodeRune_four:
  assumes "a < 5" "b < 64" "c < 64" "d < 64" "a = 0 \<longrightarrow> 16 \<le> b" "a = 4 \<longrightarrow> b < 16"
  shows "EncodeRune (a * 262144 + b * 4096 + c * 64 + d)
           = [char_of (240 + a), char_of (128 + b), char_of (128 + c), char_of (128 + d)]"
proof -
  let ?r = "a * 262144 + b * 4096 + c * 64 + d"
  have lo: "\<not> ?r \<le> 0xFFFF" using assms by (cases "a = 0") simp_all
  have hi: "\<not> 0x10FFFF < ?r" using assms by (cases "a = 4") simp_all
  have c1: "(?r \<le> 0x7F) = False" using lo by simp
  have c2: "(?r \<le> 0x7FF) = False" using lo by simp
  have c3: "(0x10FFFF < ?r \<or> (0xD800 \<le> ?r \<and> ?r \<le> 0xDFFF)) = False"
    using hi lo by simp
  have c4: "(?r \<le> 0xFFFF) = False" using lo by simp
  show ?thesis
    unfolding EncodeRune_def c1 c2 c3 c4 using split4 [OF assms(2,3,4), of a] by simp
qed

subsection \<open>Decoding by the lead byte\<close>

lemma byte_char_of: "n < 256 \<Longrightarrow> byte (char_of n) = n"
  by simp

lemma DecodeRune_ascii: "byte c < 0x80 \<Longrightarrow> DecodeRune (c # t) = (byte c, 1)"
  by (simp add: DecodeRune_def)

lemma DecodeRune_bad_lead:
  "0x80 \<le> byte c \<Longrightarrow> byte c < 0xC2 \<or> 0xF4 < byte c \<Longrightarrow> DecodeRune (c # t) = (RuneError, 1)"
  by (auto simp: DecodeRune_def)

lemma DecodeRune_lead2:
  assumes "0xC2 \<le> byte c0" "byte c0 < 0xE0"
  shows "DecodeRune (c0 # t) =
    (case t of [] \<Rightarrow> (RuneError, 1)
     | c1 # _ \<Rightarrow> if byte c1 < 0x80 \<or> 0xBF < byte c1 then (RuneError, 1)
                 else ((byte c0 mod 32) * 64 + byte c1 mod 64, 2))"
  using assms by (cases t) (simp_all add: DecodeRune_def)

lemma DecodeRune_lead3:
  assumes "0xE0 \<le> byte c0" "byte c0 < 0xF0"
  shows "DecodeRune (c0 # t) =
    (case t of
       c1 # c2 # _ \<Rightarrow>
         if byte c1 < (if byte c0 = 0xE0 then 0xA0 else 0x80)
            \<or> (if byte c0 = 0xED then 0x9F else 0xBF) < byte c1 then (RuneError, 1)
         else if byte c2 < 0x80 \<or> 0xBF < byte c2 then (RuneError, 1)
         else ((byte c0 mod 16) * 4096 + (byte c1 mod 64) * 64 + byte c2 mod 64, 3)
     | _ \<Rightarrow> (RuneError, 1))"
  using assms by (cases t; cases "tl t") (simp_all add: DecodeRune_def)

lemma DecodeRune_lead4:
  assumes "0xF0 \<le> byte c0" "byte c0 \<le> 0xF4"
  shows "DecodeRune (c0 # t) =
    (case t of
       c1 # c2 # c3 # _ \<Rightarrow>
         if byte c1 < (if byte c0 = 0xF0 then 0x90 else 0x80)
            \<or> (if byte c0 = 0xF4 then 0x8F else 0xBF) < byte c1 then (RuneError, 1)
         else if byte c2 < 0x80 \<or> 0xBF < byte c2 then (RuneError, 1)
         else if byte c3 < 0x80 \<or> 0xBF < byte c3 then (RuneError, 1)
         else ((byte c0 mod 8) * 262144 + (byte c1 mod 64) * 4096 + (byte c2 mod 64) * 64
               + byte c3 mod 64, 4)
     | _ \<Rightarrow> (RuneError, 1))"
  using assms by (cases t; cases "tl t"; cases "tl (tl t)") (simp_all add: DecodeRune_def)

lemma multi2:
  assumes "0xC2 \<le> byte c0" "byte c0 < 0xE0" "0x80 \<le> byte c1" "byte c1 \<le> 0xBF"
  shows "DecodeRune (c0 # c1 # t) = ((byte c0 - 192) * 64 + (byte c1 - 128), 2)"
    and "EncodeRune ((byte c0 - 192) * 64 + (byte c1 - 128)) = [c0, c1]"
proof -
  define a where "a = byte c0 - 192"
  define b where "b = byte c1 - 128"
  have a: "byte c0 = 6 * 32 + a" "2 \<le> a" "a < 32" "192 + a = byte c0"
    using assms(1,2) by (simp_all add: a_def)
  have b: "byte c1 = 2 * 64 + b" "b < 64" "128 + b = byte c1"
    using assms(3,4) by (simp_all add: b_def)
  have ma: "byte c0 mod 32 = a"
    unfolding a(1) using divmod_block [of a 32 6] a(3) by simp
  have mb: "byte c1 mod 64 = b"
    unfolding b(1) using divmod_block [of b 64 2] b(2) by simp
  show "DecodeRune (c0 # c1 # t) = ((byte c0 - 192) * 64 + (byte c1 - 128), 2)"
    using DecodeRune_lead2 [OF assms(1,2), of "c1 # t"] assms(3,4) ma mb
    by (simp add: a_def b_def)
  have "EncodeRune (a * 64 + b) = [char_of (byte c0), char_of (byte c1)]"
    using EncodeRune_two [OF a(2,3) b(2)] by (simp only: a(4) b(3))
  then show "EncodeRune ((byte c0 - 192) * 64 + (byte c1 - 128)) = [c0, c1]"
    by (simp add: a_def b_def)
qed

lemma multi3:
  assumes "0xE0 \<le> byte c0" "byte c0 < 0xF0"
    "(if byte c0 = 0xE0 then 0xA0 else 0x80) \<le> byte c1"
    "byte c1 \<le> (if byte c0 = 0xED then 0x9F else 0xBF)"
    "0x80 \<le> byte c2" "byte c2 \<le> 0xBF"
  shows "DecodeRune (c0 # c1 # c2 # t)
           = ((byte c0 - 224) * 4096 + (byte c1 - 128) * 64 + (byte c2 - 128), 3)"
    and "EncodeRune ((byte c0 - 224) * 4096 + (byte c1 - 128) * 64 + (byte c2 - 128))
           = [c0, c1, c2]"
proof -
  define a where "a = byte c0 - 224"
  define b where "b = byte c1 - 128"
  define c where "c = byte c2 - 128"
  have c1lo: "0x80 \<le> byte c1" using assms(3) by (simp split: if_splits)
  have c1hi: "byte c1 \<le> 0xBF" using assms(4) by (simp split: if_splits)
  have a: "byte c0 = 14 * 16 + a" "a < 16" "224 + a = byte c0"
    using assms(1,2) by (simp_all add: a_def)
  have b: "byte c1 = 2 * 64 + b" "b < 64" "128 + b = byte c1"
    using c1lo c1hi by (simp_all add: b_def)
  have c: "byte c2 = 2 * 64 + c" "c < 64" "128 + c = byte c2"
    using assms(5,6) by (simp_all add: c_def)
  have a0: "a = 0 \<longrightarrow> 32 \<le> b"
    using assms(1,3) by (auto simp: a_def b_def split: if_splits)
  have a13: "a = 13 \<longrightarrow> b < 32"
    using assms(1,4) by (auto simp: a_def b_def split: if_splits)
  have ma: "byte c0 mod 16 = a"
    unfolding a(1) using divmod_block [of a 16 14] a(2) by simp
  have mb: "byte c1 mod 64 = b"
    unfolding b(1) using divmod_block [of b 64 2] b(2) by simp
  have mc: "byte c2 mod 64 = c"
    unfolding c(1) using divmod_block [of c 64 2] c(2) by simp
  have nb: "\<not> (byte c1 < (if byte c0 = 0xE0 then 0xA0 else 0x80)
            \<or> (if byte c0 = 0xED then 0x9F else 0xBF) < byte c1)"
    using assms(3,4) by simp
  show "DecodeRune (c0 # c1 # c2 # t)
           = ((byte c0 - 224) * 4096 + (byte c1 - 128) * 64 + (byte c2 - 128), 3)"
    using DecodeRune_lead3 [OF assms(1,2), of "c1 # c2 # t"] nb assms(5,6) ma mb mc
    by (simp add: a_def b_def c_def)
  have "EncodeRune (a * 4096 + b * 64 + c)
          = [char_of (byte c0), char_of (byte c1), char_of (byte c2)]"
    using EncodeRune_three [OF a(2) b(2) c(2) a0 a13] by (simp only: a(3) b(3) c(3))
  then show "EncodeRune ((byte c0 - 224) * 4096 + (byte c1 - 128) * 64 + (byte c2 - 128))
           = [c0, c1, c2]"
    by (simp add: a_def b_def c_def)
qed

lemma multi4:
  assumes "0xF0 \<le> byte c0" "byte c0 \<le> 0xF4"
    "(if byte c0 = 0xF0 then 0x90 else 0x80) \<le> byte c1"
    "byte c1 \<le> (if byte c0 = 0xF4 then 0x8F else 0xBF)"
    "0x80 \<le> byte c2" "byte c2 \<le> 0xBF" "0x80 \<le> byte c3" "byte c3 \<le> 0xBF"
  shows "DecodeRune (c0 # c1 # c2 # c3 # t)
           = ((byte c0 - 240) * 262144 + (byte c1 - 128) * 4096 + (byte c2 - 128) * 64
              + (byte c3 - 128), 4)"
    and "EncodeRune ((byte c0 - 240) * 262144 + (byte c1 - 128) * 4096 + (byte c2 - 128) * 64
              + (byte c3 - 128)) = [c0, c1, c2, c3]"
proof -
  define a where "a = byte c0 - 240"
  define b where "b = byte c1 - 128"
  define c where "c = byte c2 - 128"
  define d where "d = byte c3 - 128"
  have c1lo: "0x80 \<le> byte c1" using assms(3) by (simp split: if_splits)
  have c1hi: "byte c1 \<le> 0xBF" using assms(4) by (simp split: if_splits)
  have a: "byte c0 = 30 * 8 + a" "a < 5" "240 + a = byte c0" "a < 8"
    using assms(1,2) by (simp_all add: a_def)
  have b: "byte c1 = 2 * 64 + b" "b < 64" "128 + b = byte c1"
    using c1lo c1hi by (simp_all add: b_def)
  have c: "byte c2 = 2 * 64 + c" "c < 64" "128 + c = byte c2"
    using assms(5,6) by (simp_all add: c_def)
  have d: "byte c3 = 2 * 64 + d" "d < 64" "128 + d = byte c3"
    using assms(7,8) by (simp_all add: d_def)
  have a0: "a = 0 \<longrightarrow> 16 \<le> b"
    using assms(1,3) by (auto simp: a_def b_def split: if_splits)
  have a4: "a = 4 \<longrightarrow> b < 16"
    using assms(1,4) by (auto simp: a_def b_def split: if_splits)
  have ma: "byte c0 mod 8 = a"
    unfolding a(1) using divmod_block [of a 8 30] a(4) by simp
  have mb: "byte c1 mod 64 = b"
    unfolding b(1) using divmod_block [of b 64 2] b(2) by simp
  have mc: "byte c2 mod 64 = c"
    unfolding c(1) using divmod_block [of c 64 2] c(2) by simp
  have md: "byte c3 mod 64 = d"
    unfolding d(1) using divmod_block [of d 64 2] d(2) by simp
  have nb: "\<not> (byte c1 < (if byte c0 = 0xF0 then 0x90 else 0x80)
            \<or> (if byte c0 = 0xF4 then 0x8F else 0xBF) < byte c1)"
    using assms(3,4) by simp
  show "DecodeRune (c0 # c1 # c2 # c3 # t)
           = ((byte c0 - 240) * 262144 + (byte c1 - 128) * 4096 + (byte c2 - 128) * 64
              + (byte c3 - 128), 4)"
    using DecodeRune_lead4 [OF assms(1,2), of "c1 # c2 # c3 # t"] nb assms(5,6,7,8) ma mb mc md
    by (simp add: a_def b_def c_def d_def)
  have "EncodeRune (a * 262144 + b * 4096 + c * 64 + d)
          = [char_of (byte c0), char_of (byte c1), char_of (byte c2), char_of (byte c3)]"
    using EncodeRune_four [OF a(2) b(2) c(2) d(2) a0 a4] by (simp only: a(3) b(3) c(3) d(3))
  then show "EncodeRune ((byte c0 - 240) * 262144 + (byte c1 - 128) * 4096
       + (byte c2 - 128) * 64 + (byte c3 - 128)) = [c0, c1, c2, c3]"
    by (simp add: a_def b_def c_def d_def)
qed

lemma valid_rune_shape:
  assumes hi: "0x80 \<le> byte c0" and ok: "DecodeRune (c0 # t) \<noteq> (RuneError, 1)"
  obtains (two) c1 t' where "t = c1 # t'" "0xC2 \<le> byte c0" "byte c0 < 0xE0"
      "0x80 \<le> byte c1" "byte c1 \<le> 0xBF"
  | (three) c1 c2 t' where "t = c1 # c2 # t'" "0xE0 \<le> byte c0" "byte c0 < 0xF0"
      "(if byte c0 = 0xE0 then 0xA0 else 0x80) \<le> byte c1"
      "byte c1 \<le> (if byte c0 = 0xED then 0x9F else 0xBF)"
      "0x80 \<le> byte c2" "byte c2 \<le> 0xBF"
  | (four) c1 c2 c3 t' where "t = c1 # c2 # c3 # t'" "0xF0 \<le> byte c0" "byte c0 \<le> 0xF4"
      "(if byte c0 = 0xF0 then 0x90 else 0x80) \<le> byte c1"
      "byte c1 \<le> (if byte c0 = 0xF4 then 0x8F else 0xBF)"
      "0x80 \<le> byte c2" "byte c2 \<le> 0xBF" "0x80 \<le> byte c3" "byte c3 \<le> 0xBF"
proof -
  consider (bad) "byte c0 < 0xC2 \<or> 0xF4 < byte c0"
    | (l2) "0xC2 \<le> byte c0" "byte c0 < 0xE0"
    | (l3) "0xE0 \<le> byte c0" "byte c0 < 0xF0"
    | (l4) "0xF0 \<le> byte c0" "byte c0 \<le> 0xF4"
    by linarith
  then show thesis
  proof cases
    case bad
    then show ?thesis using DecodeRune_bad_lead [OF hi] ok by blast
  next
    case l2
    show ?thesis
    proof (cases t)
      case Nil
      then show ?thesis using DecodeRune_lead2 [OF l2, of t] ok by simp
    next
      case (Cons c1 t')
      then have "\<not> (byte c1 < 0x80 \<or> 0xBF < byte c1)"
        using DecodeRune_lead2 [OF l2, of t] ok by (auto split: if_splits)
      then show ?thesis using two [OF Cons l2] by simp
    qed
  next
    case l3
    show ?thesis
    proof (cases t)
      case Nil
      then show ?thesis using DecodeRune_lead3 [OF l3, of t] ok by simp
    next
      case (Cons c1 t1)
      show ?thesis
      proof (cases t1)
        case Nil
        then show ?thesis using DecodeRune_lead3 [OF l3, of t] ok Cons by simp
      next
        case (Cons c2 t')
        have t: "t = c1 # c2 # t'" using \<open>t = c1 # t1\<close> Cons by simp
        have d: "DecodeRune (c0 # c1 # c2 # t') \<noteq> (RuneError, 1)" using ok t by simp
        have r1: "\<not> (byte c1 < (if byte c0 = 0xE0 then 0xA0 else 0x80)
            \<or> (if byte c0 = 0xED then 0x9F else 0xBF) < byte c1)"
          using DecodeRune_lead3 [OF l3, of "c1 # c2 # t'"] d by (auto split: if_splits)
        have r2: "\<not> (byte c2 < 0x80 \<or> 0xBF < byte c2)"
          using DecodeRune_lead3 [OF l3, of "c1 # c2 # t'"] d r1 by (auto split: if_splits)
        show ?thesis using three [OF t l3] r1 r2 by simp
      qed
    qed
  next
    case l4
    show ?thesis
    proof (cases t)
      case Nil
      then show ?thesis using DecodeRune_lead4 [OF l4, of t] ok by simp
    next
      case (Cons c1 t1)
      note t1 = Cons
      show ?thesis
      proof (cases t1)
        case Nil
        then show ?thesis using DecodeRune_lead4 [OF l4, of t] ok t1 by simp
      next
        case (Cons c2 t2)
        note t2 = Cons
        show ?thesis
        proof (cases t2)
          case Nil
          then show ?thesis using DecodeRune_lead4 [OF l4, of t] ok t1 t2 by simp
        next
          case (Cons c3 t')
          have t: "t = c1 # c2 # c3 # t'" using t1 t2 Cons by simp
          have d: "DecodeRune (c0 # c1 # c2 # c3 # t') \<noteq> (RuneError, 1)" using ok t by simp
          have r1: "\<not> (byte c1 < (if byte c0 = 0xF0 then 0x90 else 0x80)
              \<or> (if byte c0 = 0xF4 then 0x8F else 0xBF) < byte c1)"
            using DecodeRune_lead4 [OF l4, of "c1 # c2 # c3 # t'"] d by (auto split: if_splits)
          have r2: "\<not> (byte c2 < 0x80 \<or> 0xBF < byte c2)"
            using DecodeRune_lead4 [OF l4, of "c1 # c2 # c3 # t'"] d r1 by (auto split: if_splits)
          have r3: "\<not> (byte c3 < 0x80 \<or> 0xBF < byte c3)"
            using DecodeRune_lead4 [OF l4, of "c1 # c2 # c3 # t'"] d r1 r2
            by (auto split: if_splits)
          show ?thesis using four [OF t l4] r1 r2 r3 by simp
        qed
      qed
    qed
  qed
qed

text \<open>
  A valid sequence of more than one byte: its width is within the text, re-encoding its
  rune gives its bytes back, all its bytes are \<open>0x80\<close> or more, and it decodes the
  same whatever follows it.
\<close>

lemma valid_rune:
  assumes hi: "0x80 \<le> byte c0" and dec: "DecodeRune (c0 # t) = (r, w)"
    and ok: "\<not> (r = RuneError \<and> w = 1)"
  shows "length (take w (c0 # t)) = w"
    and "EncodeRune r = take w (c0 # t)"
    and "\<forall>c\<in>set (take w (c0 # t)). 0x80 \<le> byte c"
    and "DecodeRune (take w (c0 # t) @ u) = (r, w)"
proof -
  have ok': "DecodeRune (c0 # t) \<noteq> (RuneError, 1)" using dec ok by auto
  have "length (take w (c0 # t)) = w \<and> EncodeRune r = take w (c0 # t)
      \<and> (\<forall>c\<in>set (take w (c0 # t)). 0x80 \<le> byte c)
      \<and> DecodeRune (take w (c0 # t) @ u) = (r, w)"
    using hi ok'
  proof (cases rule: valid_rune_shape)
    case (two c1 t')
    have rw: "r = (byte c0 - 192) * 64 + (byte c1 - 128)" "w = 2"
      using multi2(1) [OF two(2-5), of t'] dec two(1) by simp_all
    show ?thesis
      using multi2 [OF two(2-5)] two hi by (simp add: rw)
  next
    case (three c1 c2 t')
    have rw: "r = (byte c0 - 224) * 4096 + (byte c1 - 128) * 64 + (byte c2 - 128)" "w = 3"
      using multi3(1) [OF three(2-7), of t'] dec three(1) by simp_all
    have c1: "0x80 \<le> byte c1" using three(4) by (simp split: if_splits)
    show ?thesis
      using multi3 [OF three(2-7)] three(1,6) c1 hi by (simp add: rw)
  next
    case (four c1 c2 c3 t')
    have rw: "r = (byte c0 - 240) * 262144 + (byte c1 - 128) * 4096 + (byte c2 - 128) * 64
        + (byte c3 - 128)" "w = 4"
      using multi4(1) [OF four(2-9), of t'] dec four(1) by simp_all
    have c1: "0x80 \<le> byte c1" using four(4) by (simp split: if_splits)
    show ?thesis
      using multi4 [OF four(2-9)] four(1,6,8) c1 hi by (simp add: rw)
  qed
  then show "length (take w (c0 # t)) = w"
    and "EncodeRune r = take w (c0 # t)"
    and "\<forall>c\<in>set (take w (c0 # t)). 0x80 \<le> byte c"
    and "DecodeRune (take w (c0 # t) @ u) = (r, w)"
    by simp_all
qed

subsection \<open>The scanner inside a string literal\<close>

text \<open>
  \<open>instr\<close>: the scanner is inside a string literal and has met no error. \<open>quiet sc xs\<close>: reading
  \<open>xs\<close> from \<open>sc\<close> neither ends the top-level value nor fails. \<open>goes sc xs sc'\<close>: it does so and
  ends in \<open>sc'\<close>; \<open>stays\<close> is \<open>goes\<close> back to the same state.
\<close>

lemma hex_props: "n < 16 \<Longrightarrow> isHex (hex n) \<and> hexval (hex n) = n"
proof -
  assume "n < 16"
  then have "n \<in> set [0..<16]" by simp
  moreover have "\<forall>n\<in>set [0..<16]. isHex (hex n) \<and> hexval (hex n) = n"
    by code_simp
  ultimately show ?thesis by blast
qed

definition instr :: "scanner \<Rightarrow> bool" where
  "instr sc = (step sc = stateInString \<and> \<not> endTop sc \<and> \<not> err sc)"

fun quiet :: "scanner \<Rightarrow> bytes \<Rightarrow> bool" where
  "quiet sc [] = True"
| "quiet sc (c # cs) =
     (let sc' = scan_byte sc c in \<not> endTop sc' \<and> \<not> err sc' \<and> quiet sc' cs)"

definition stays :: "scanner \<Rightarrow> bytes \<Rightarrow> bool" where
  "stays sc xs = (foldl scan_byte sc xs = sc \<and> quiet sc xs)"

lemma quiet_append: "quiet sc (xs @ ys) = (quiet sc xs \<and> quiet (foldl scan_byte sc xs) ys)"
  by (induction xs arbitrary: sc) (auto simp: Let_def)

lemma valueLength_quiet:
  "quiet sc xs \<Longrightarrow>
     valueLength sc (xs @ rest)
       = map_option (\<lambda>n. length xs + n) (valueLength (foldl scan_byte sc xs) rest)"
proof (induction xs arbitrary: sc)
  case Nil
  then show ?case by (simp add: option.map_ident)
next
  case (Cons c xs)
  then show ?case
    by (simp add: Let_def option.map_comp comp_def)
qed

lemma stays_Nil: "stays sc []"
  by (simp add: stays_def)

lemma stays_append: "stays sc xs \<Longrightarrow> stays sc ys \<Longrightarrow> stays sc (xs @ ys)"
  by (simp add: stays_def quiet_append)

lemma step_same: "step sc = x \<Longrightarrow> sc\<lparr>step := x\<rparr> = sc"
  by (cases sc) simp

definition goes :: "scanner \<Rightarrow> bytes \<Rightarrow> scanner \<Rightarrow> bool" where
  "goes sc xs sc' = (foldl scan_byte sc xs = sc' \<and> quiet sc xs)"

lemma goes_Nil: "goes sc [] sc"
  by (simp add: goes_def)

lemma goes_Cons:
  "scan_byte sc c = sc1 \<Longrightarrow> \<not> endTop sc1 \<Longrightarrow> \<not> err sc1 \<Longrightarrow> goes sc1 xs sc2 \<Longrightarrow> goes sc (c # xs) sc2"
  by (simp add: goes_def)

lemma stays_goes: "stays sc xs = goes sc xs sc"
  by (simp add: stays_def goes_def)

lemma in_string_plain:
  \<open>step sc = stateInString \<Longrightarrow> c \<noteq> CHR ''"'' \<Longrightarrow> c \<noteq> CHR 0x5C \<Longrightarrow> 0x20 \<le> byte c
     \<Longrightarrow> scan_byte sc c = sc\<close>
  by (simp add: scan_byte_def)

lemma in_string_backslash:
  "step sc = stateInString \<Longrightarrow> scan_byte sc (CHR 0x5C) = sc\<lparr>step := stateInStringEsc\<rparr>"
  by (simp add: scan_byte_def)

lemma in_string_esc:
  \<open>e = CHR ''n'' \<or> e = CHR ''r'' \<or> e = CHR ''t'' \<or> e = CHR 0x5C \<or> e = CHR ''"''
     \<Longrightarrow> scan_byte (sc\<lparr>step := stateInStringEsc\<rparr>) e = sc\<lparr>step := stateInString\<rparr>\<close>
  by (auto simp: scan_byte_def)

lemma in_string_esc_u:
  "scan_byte (sc\<lparr>step := stateInStringEsc\<rparr>) (CHR ''u'') = sc\<lparr>step := stateInStringEscU\<rparr>"
  by (simp add: scan_byte_def)

lemma in_string_hex:
  assumes "isHex h"
  shows "scan_byte (sc\<lparr>step := stateInStringEscU\<rparr>) h = sc\<lparr>step := stateInStringEscU1\<rparr>"
    and "scan_byte (sc\<lparr>step := stateInStringEscU1\<rparr>) h = sc\<lparr>step := stateInStringEscU12\<rparr>"
    and "scan_byte (sc\<lparr>step := stateInStringEscU12\<rparr>) h = sc\<lparr>step := stateInStringEscU123\<rparr>"
    and "scan_byte (sc\<lparr>step := stateInStringEscU123\<rparr>) h = sc\<lparr>step := stateInString\<rparr>"
  using assms by (simp_all add: scan_byte_def)

lemma stays_plain:
  assumes "instr sc" \<open>c \<noteq> CHR ''"''\<close> "c \<noteq> CHR 0x5C" "0x20 \<le> byte c"
  shows "stays sc [c]"
proof -
  have st: "step sc = stateInString" "\<not> endTop sc" "\<not> err sc"
    using assms(1) by (simp_all add: instr_def)
  show ?thesis
    unfolding stays_goes
    by (rule goes_Cons [OF in_string_plain [OF st(1) assms(2-4)] st(2,3) goes_Nil])
qed

lemma stays_escape:
  assumes "instr sc"
    and \<open>e = CHR ''n'' \<or> e = CHR ''r'' \<or> e = CHR ''t'' \<or> e = CHR 0x5C \<or> e = CHR ''"''\<close>
  shows "stays sc [CHR 0x5C, e]"
proof -
  have st: "step sc = stateInString" "\<not> endTop sc" "\<not> err sc"
    using assms(1) by (simp_all add: instr_def)
  have same: "sc\<lparr>step := stateInString\<rparr> = sc"
    using st(1) by (rule step_same)
  have e: "scan_byte (sc\<lparr>step := stateInStringEsc\<rparr>) e = sc"
    using in_string_esc [OF assms(2), of sc] same by simp
  have g: "goes (sc\<lparr>step := stateInStringEsc\<rparr>) [e] sc"
    by (rule goes_Cons [OF e st(2,3) goes_Nil])
  show ?thesis
    unfolding stays_goes
    by (rule goes_Cons [OF in_string_backslash [OF st(1)] _ _ g]) (simp_all add: st)
qed

lemma stays_escape_u:
  assumes "instr sc" "isHex h1" "isHex h2" "isHex h3" "isHex h4"
  shows "stays sc [CHR 0x5C, CHR ''u'', h1, h2, h3, h4]"
proof -
  have st: "step sc = stateInString" "\<not> endTop sc" "\<not> err sc"
    using assms(1) by (simp_all add: instr_def)
  have same: "sc\<lparr>step := stateInString\<rparr> = sc"
    using st(1) by (rule step_same)
  have e4: "scan_byte (sc\<lparr>step := stateInStringEscU123\<rparr>) h4 = sc"
    using in_string_hex(4) [OF assms(5), of sc] same by simp
  have g4: "goes (sc\<lparr>step := stateInStringEscU123\<rparr>) [h4] sc"
    by (rule goes_Cons [OF e4 st(2,3) goes_Nil])
  have g3: "goes (sc\<lparr>step := stateInStringEscU12\<rparr>) [h3, h4] sc"
    by (rule goes_Cons [OF in_string_hex(3) [OF assms(4)] _ _ g4]) (simp_all add: st)
  have g2: "goes (sc\<lparr>step := stateInStringEscU1\<rparr>) [h2, h3, h4] sc"
    by (rule goes_Cons [OF in_string_hex(2) [OF assms(3)] _ _ g3]) (simp_all add: st)
  have g1: "goes (sc\<lparr>step := stateInStringEscU\<rparr>) [h1, h2, h3, h4] sc"
    by (rule goes_Cons [OF in_string_hex(1) [OF assms(2)] _ _ g2]) (simp_all add: st)
  have g0: "goes (sc\<lparr>step := stateInStringEsc\<rparr>) [CHR ''u'', h1, h2, h3, h4] sc"
    by (rule goes_Cons [OF in_string_esc_u _ _ g1]) (simp_all add: st)
  show ?thesis
    unfolding stays_goes
    by (rule goes_Cons [OF in_string_backslash [OF st(1)] _ _ g0]) (simp_all add: st)
qed

lemma stays_high: "instr sc \<Longrightarrow> \<forall>c\<in>set xs. 0x80 \<le> byte c \<Longrightarrow> stays sc xs"
proof (induction xs)
  case Nil
  then show ?case by (simp add: stays_Nil)
next
  case (Cons c xs)
  have "0x80 \<le> byte c" using Cons.prems(2) by simp
  then have \<open>c \<noteq> CHR ''"''\<close> "c \<noteq> CHR 0x5C" "0x20 \<le> byte c" by auto
  then have "stays sc [c]"
    using Cons.prems(1) by (rule stays_plain [rotated])
  moreover have "stays sc xs"
    using Cons by simp
  ultimately show ?case
    using stays_append [of sc "[c]" xs] by simp
qed

subsection \<open>The encoder, one rune at a time\<close>

definition asciiChunk :: "char \<Rightarrow> bytes" where
  "asciiChunk c =
     (if 0x20 \<le> byte c \<and> c \<noteq> CHR 0x5C \<and> c \<noteq> CHR 0x22
          \<and> c \<noteq> CHR ''<'' \<and> c \<noteq> CHR ''>'' \<and> c \<noteq> CHR ''&''
      then [c]
      else if c = CHR 0x5C \<or> c = CHR 0x22 then [CHR 0x5C, c]
      else if c = CHR 0x0A then [CHR 0x5C, CHR ''n'']
      else if c = CHR 0x0D then [CHR 0x5C, CHR ''r'']
      else if c = CHR 0x09 then [CHR 0x5C, CHR ''t'']
      else [CHR 0x5C, CHR ''u'', CHR ''0'', CHR ''0'', hex (byte c div 16), hex (byte c mod 16)])"

lemma utf8_induct [case_names Nil ascii invalid rune]:
  assumes "P []"
    and "\<And>c t. byte c < 0x80 \<Longrightarrow> P t \<Longrightarrow> P (c # t)"
    and "\<And>c t. 0x80 \<le> byte c \<Longrightarrow> DecodeRune (c # t) = (RuneError, 1) \<Longrightarrow> P t \<Longrightarrow> P (c # t)"
    and "\<And>c t r w. 0x80 \<le> byte c \<Longrightarrow> DecodeRune (c # t) = (r, w)
           \<Longrightarrow> \<not> (r = RuneError \<and> w = 1) \<Longrightarrow> P (drop w (c # t)) \<Longrightarrow> P (c # t)"
  shows "P s"
proof (induction s rule: length_induct)
  case (1 s)
  show ?case
  proof (cases s)
    case Nil
    then show ?thesis using assms(1) by simp
  next
    case (Cons c t)
    have IH: "P ys" if "length ys < length (c # t)" for ys
      using 1 that Cons by simp
    show ?thesis
    proof (cases "byte c < 0x80")
      case True
      then show ?thesis using assms(2) IH [of t] Cons by simp
    next
      case False
      obtain r w where rw: "DecodeRune (c # t) = (r, w)" by (cases "DecodeRune (c # t)")
      show ?thesis
      proof (cases "r = RuneError \<and> w = 1")
        case True
        then show ?thesis using assms(3) [of c t] False rw IH [of t] Cons by simp
      next
        case bad: False
        have "0 < w" using DecodeRune_width_pos [of "c # t"] rw by simp
        then have "length (drop w (c # t)) < length (c # t)" by simp
        then show ?thesis
          using assms(4) [of c t r w] False rw bad IH Cons by simp
      qed
    qed
  qed
qed

lemma encode_Nil: "encodeString_loop [] = []"
  by (subst encodeString_loop.simps) simp

lemma encode_ascii: "byte c < 0x80 \<Longrightarrow> encodeString_loop (c # t) = asciiChunk c @ encodeString_loop t"
  by (subst encodeString_loop.simps) (simp add: asciiChunk_def Let_def)

lemma encode_invalid:
  "0x80 \<le> byte c \<Longrightarrow> DecodeRune (c # t) = (RuneError, 1) \<Longrightarrow>
     encodeString_loop (c # t)
       = [CHR 0x5C, CHR ''u'', CHR ''f'', CHR ''f'', CHR ''f'', CHR ''d''] @ encodeString_loop t"
  by (subst encodeString_loop.simps) (simp add: Let_def)

lemma encode_rune:
  "0x80 \<le> byte c \<Longrightarrow> DecodeRune (c # t) = (r, w) \<Longrightarrow> \<not> (r = RuneError \<and> w = 1) \<Longrightarrow>
     encodeString_loop (c # t)
       = (if r = 0x2028 \<or> r = 0x2029
          then [CHR 0x5C, CHR ''u'', CHR ''2'', CHR ''0'', CHR ''2'', hex (r mod 16)]
          else take w (c # t)) @ encodeString_loop (drop w (c # t))"
  by (subst encodeString_loop.simps) (simp add: Let_def)

lemma isHex_digits:
  "isHex (CHR ''0'')" "isHex (CHR ''2'')" "isHex (CHR ''f'')" "isHex (CHR ''d'')"
  by (simp_all add: isHex_def less_eq_char_def)

lemma stays_asciiChunk:
  assumes "instr sc" "byte c < 0x80"
  shows "stays sc (asciiChunk c)"
proof -
  have h: "isHex (hex (byte c div 16))" "isHex (hex (byte c mod 16))"
    using assms(2) hex_props [of "byte c div 16"] hex_props [of "byte c mod 16"] by simp_all
  have u: "stays sc [CHR 0x5C, CHR ''u'', CHR ''0'', CHR ''0'', hex (byte c div 16), hex (byte c mod 16)]"
    using assms(1) isHex_digits(1) isHex_digits(1) h by (rule stays_escape_u)
  show ?thesis
    using u stays_plain [OF assms(1), of c] stays_escape [OF assms(1)]
    by (auto simp: asciiChunk_def)
qed

lemma stays_encode: "instr sc \<Longrightarrow> stays sc (encodeString_loop s)"
proof (induction s rule: utf8_induct)
  case Nil
  then show ?case by (simp add: encode_Nil stays_Nil)
next
  case (ascii c t)
  then show ?case
    using stays_append [OF stays_asciiChunk] by (simp add: encode_ascii)
next
  case (invalid c t)
  have "stays sc [CHR 0x5C, CHR ''u'', CHR ''f'', CHR ''f'', CHR ''f'', CHR ''d'']"
    using invalid.prems isHex_digits(3) isHex_digits(3) isHex_digits(3) isHex_digits(4)
    by (rule stays_escape_u)
  then show ?case
    using invalid stays_append by (simp add: encode_invalid del: append.simps)
next
  case (rune c t r w)
  have chunk: "stays sc (if r = 0x2028 \<or> r = 0x2029
          then [CHR 0x5C, CHR ''u'', CHR ''2'', CHR ''0'', CHR ''2'', hex (r mod 16)]
          else take w (c # t))"
  proof (cases "r = 0x2028 \<or> r = 0x2029")
    case True
    then have "isHex (hex (r mod 16))"
      using hex_props [of "r mod 16"] by auto
    then have "stays sc [CHR 0x5C, CHR ''u'', CHR ''2'', CHR ''0'', CHR ''2'', hex (r mod 16)]"
      using rune.prems isHex_digits(2) isHex_digits(1) isHex_digits(2)
      by (intro stays_escape_u)
    then show ?thesis using True by simp
  next
    case False
    have "stays sc (take w (c # t))"
      using rune.prems valid_rune(3) [OF rune.hyps(1,2,3)] by (rule stays_high)
    then show ?thesis using False by simp
  qed
  show ?case
    unfolding encode_rune [OF rune.hyps(1,2,3)]
    using chunk rune.IH [OF rune.prems] by (rule stays_append)
qed

subsection \<open>Unquoting what the encoder wrote\<close>

lemma unquote_Nil: "unquote_loop [] = Some []"
  by (subst unquote_loop.simps) simp

lemma unquote_plain:
  \<open>c \<noteq> CHR 0x5C \<Longrightarrow> c \<noteq> CHR ''"'' \<Longrightarrow> 0x20 \<le> byte c \<Longrightarrow> byte c < 0x80
     \<Longrightarrow> unquote_loop (c # t) = put [c] (unquote_loop t)\<close>
  by (subst unquote_loop.simps) simp

lemma unquote_escape:
  \<open>unquote_loop (CHR 0x5C # CHR 0x5C # t) = put [CHR 0x5C] (unquote_loop t)\<close>
  \<open>unquote_loop (CHR 0x5C # CHR ''"'' # t) = put [CHR ''"''] (unquote_loop t)\<close>
  \<open>unquote_loop (CHR 0x5C # CHR ''n'' # t) = put [CHR 0x0A] (unquote_loop t)\<close>
  \<open>unquote_loop (CHR 0x5C # CHR ''r'' # t) = put [CHR 0x0D] (unquote_loop t)\<close>
  \<open>unquote_loop (CHR 0x5C # CHR ''t'' # t) = put [CHR 0x09] (unquote_loop t)\<close>
  by (subst unquote_loop.simps, simp)+

lemma getu4_escape:
  "isHex h1 \<Longrightarrow> isHex h2 \<Longrightarrow> isHex h3 \<Longrightarrow> isHex h4 \<Longrightarrow>
     getu4 (CHR 0x5C # CHR ''u'' # h1 # h2 # h3 # h4 # t)
       = Some (hexval h1 * 4096 + hexval h2 * 256 + hexval h3 * 16 + hexval h4)"
  by (simp add: getu4_def)

lemma unquote_u:
  assumes "isHex h1" "isHex h2" "isHex h3" "isHex h4"
    and "rr = hexval h1 * 4096 + hexval h2 * 256 + hexval h3 * 16 + hexval h4"
    and "\<not> IsSurrogate rr"
  shows "unquote_loop (CHR 0x5C # CHR ''u'' # h1 # h2 # h3 # h4 # t)
           = put (EncodeRune rr) (unquote_loop t)"
  using getu4_escape [OF assms(1-4), of t] assms(5,6)
  by (subst unquote_loop.simps) simp

lemma unquote_rune:
  assumes "0x80 \<le> byte c" "DecodeRune (c # t) = (r, w)"
  shows "unquote_loop (c # t) = put (EncodeRune r) (unquote_loop (drop w (c # t)))"
proof -
  have \<open>c \<noteq> CHR 0x5C\<close> \<open>c \<noteq> CHR ''"''\<close> "\<not> byte c < 0x20" "\<not> byte c < 0x80"
    using assms(1) by auto
  then show ?thesis
    using assms(2) by (subst unquote_loop.simps) simp
qed

lemma hexval_digits: "hexval (CHR ''0'') = 0" "hexval (CHR ''2'') = 2"
  by (simp_all add: hexval_def less_eq_char_def)

lemma EncodeRune_ascii: "n < 0x80 \<Longrightarrow> EncodeRune n = [char_of n]"
  by (simp add: EncodeRune_def)

lemma unquote_asciiChunk:
  assumes "byte c < 0x80"
  shows "unquote_loop (asciiChunk c @ t) = put [c] (unquote_loop t)"
proof -
  have h: "isHex (hex (byte c div 16))" "isHex (hex (byte c mod 16))"
    "hexval (hex (byte c div 16)) = byte c div 16" "hexval (hex (byte c mod 16)) = byte c mod 16"
    using assms hex_props [of "byte c div 16"] hex_props [of "byte c mod 16"] by simp_all
  have rr: "byte c = hexval (CHR ''0'') * 4096 + hexval (CHR ''0'') * 256
      + hexval (hex (byte c div 16)) * 16 + hexval (hex (byte c mod 16))"
    by (simp add: h hexval_digits)
  have ns: "\<not> IsSurrogate (byte c)"
    using assms by (simp add: IsSurrogate_def)
  have u: "unquote_loop (CHR 0x5C # CHR ''u'' # CHR ''0'' # CHR ''0'' # hex (byte c div 16)
        # hex (byte c mod 16) # t) = put [c] (unquote_loop t)"
    using unquote_u [OF isHex_digits(1) isHex_digits(1) h(1,2) rr ns, of t]
      EncodeRune_ascii [OF assms] by simp
  show ?thesis
    using u assms unquote_plain [of c t]
    by (auto simp: asciiChunk_def unquote_escape)
qed

lemma ValidString_Nil: "ValidString []"
  by (subst ValidString.simps) simp

lemma ValidString_ascii: "byte c < 0x80 \<Longrightarrow> ValidString (c # t) = ValidString t"
  by (subst ValidString.simps) (simp add: DecodeRune_ascii RuneError_def)

lemma ValidString_rune:
  "DecodeRune (c # t) = (r, w) \<Longrightarrow>
     ValidString (c # t) = (\<not> (r = RuneError \<and> w = 1) \<and> ValidString (drop w (c # t)))"
  by (subst ValidString.simps) auto

lemma put_Some: "put b (Some t) = Some (b @ t)"
  by (simp add: put_def)

lemma put_put: "put a (put b x) = put (a @ b) x"
  by (cases x) (simp_all add: put_def)

lemma sep_value:
  assumes "r = 0x2028 \<or> r = 0x2029"
  shows "r = hexval (CHR ''2'') * 4096 + hexval (CHR ''0'') * 256 + hexval (CHR ''2'') * 16
           + hexval (hex (r mod 16))"
    and "isHex (hex (r mod 16))" and "\<not> IsSurrogate r"
  using assms hex_props [of "r mod 16"]
  by (auto simp: hexval_digits IsSurrogate_def)

lemma coerce_Nil: "coerceUTF8 [] = []"
  by (subst coerceUTF8.simps) simp

lemma coerce_ascii: "byte c < 0x80 \<Longrightarrow> coerceUTF8 (c # t) = c # coerceUTF8 t"
  by (subst coerceUTF8.simps) (simp add: DecodeRune_ascii RuneError_def)

lemma coerce_invalid:
  "DecodeRune (c # t) = (RuneError, 1) \<Longrightarrow>
     coerceUTF8 (c # t) = [CHR 0xEF, CHR 0xBF, CHR 0xBD] @ coerceUTF8 t"
  by (subst coerceUTF8.simps) simp

lemma coerce_rune:
  "DecodeRune (c # t) = (r, w) \<Longrightarrow> \<not> (r = RuneError \<and> w = 1) \<Longrightarrow>
     coerceUTF8 (c # t) = take w (c # t) @ coerceUTF8 (drop w (c # t))"
  by (subst coerceUTF8.simps) auto

lemma coerce_valid: "ValidString s \<Longrightarrow> coerceUTF8 s = s"
proof (induction s rule: utf8_induct)
  case Nil
  then show ?case by (simp add: coerce_Nil)
next
  case (ascii c t)
  then show ?case by (simp add: coerce_ascii ValidString_ascii)
next
  case (invalid c t)
  then show ?case by (simp add: ValidString_rune)
next
  case (rune c t r w)
  have "ValidString (drop w (c # t))"
    using rune.prems rune.hyps(2) by (simp add: ValidString_rune)
  then have "coerceUTF8 (drop w (c # t)) = drop w (c # t)"
    by (rule rune.IH)
  then show ?case
    unfolding coerce_rune [OF rune.hyps(2,3)] by (simp only: append_take_drop_id)
qed

lemma replacement_value:
  "0xFFFD = hexval (CHR ''f'') * 4096 + hexval (CHR ''f'') * 256 + hexval (CHR ''f'') * 16
     + hexval (CHR ''d'')"
  "\<not> IsSurrogate 0xFFFD" "EncodeRune 0xFFFD = [CHR 0xEF, CHR 0xBF, CHR 0xBD]"
proof -
  show "0xFFFD = hexval (CHR ''f'') * 4096 + hexval (CHR ''f'') * 256 + hexval (CHR ''f'') * 16
     + hexval (CHR ''d'')"
    by (simp add: hexval_def less_eq_char_def)
  show "\<not> IsSurrogate 0xFFFD"
    by (simp add: IsSurrogate_def)
  have "char_of (239::nat) = CHR 0xEF" "char_of (191::nat) = CHR 0xBF"
    "char_of (189::nat) = CHR 0xBD"
    by code_simp+
  then show "EncodeRune 0xFFFD = [CHR 0xEF, CHR 0xBF, CHR 0xBD]"
    by (simp add: EncodeRune_def)
qed

lemma unquote_encode:
  "unquote_loop (encodeString_loop s @ t) = put (coerceUTF8 s) (unquote_loop t)"
proof (induction s rule: utf8_induct)
  case Nil
  then show ?case by (simp add: encode_Nil coerce_Nil put_def option.map_ident)
next
  case (ascii c t')
  then show ?case
    by (simp add: encode_ascii coerce_ascii unquote_asciiChunk put_def option.map_comp comp_def)
next
  case (invalid c t')
  have "unquote_loop (CHR 0x5C # CHR ''u'' # CHR ''f'' # CHR ''f'' # CHR ''f'' # CHR ''d''
        # encodeString_loop t' @ t)
      = put [CHR 0xEF, CHR 0xBF, CHR 0xBD] (unquote_loop (encodeString_loop t' @ t))"
    using unquote_u [OF isHex_digits(3) isHex_digits(3) isHex_digits(3) isHex_digits(4)
        replacement_value(1,2), of "encodeString_loop t' @ t"]
    by (simp only: replacement_value(3))
  then show ?case
    using invalid.IH
    by (simp add: encode_invalid [OF invalid.hyps] coerce_invalid [OF invalid.hyps(2)] put_put)
next
  case (rune c t' r w)
  note vr = valid_rune [OF rune.hyps(1,2,3)]
  let ?rest = "encodeString_loop (drop w (c # t')) @ t"
  have IH: "unquote_loop ?rest = put (coerceUTF8 (drop w (c # t'))) (unquote_loop t)"
    using rune.IH .
  have chunk: "unquote_loop ((if r = 0x2028 \<or> r = 0x2029
          then [CHR 0x5C, CHR ''u'', CHR ''2'', CHR ''0'', CHR ''2'', hex (r mod 16)]
          else take w (c # t')) @ ?rest) = put (take w (c # t')) (unquote_loop ?rest)"
  proof (cases "r = 0x2028 \<or> r = 0x2029")
    case True
    show ?thesis
      using unquote_u [OF isHex_digits(2) isHex_digits(1) isHex_digits(2) sep_value(2,1,3) [OF True],
          of ?rest] True vr(2)
      by simp
  next
    case False
    have w: "0 < w" using DecodeRune_width_pos [of "c # t'"] rune.hyps(2) by simp
    then obtain n where n: "w = Suc n" by (cases w) auto
    have tk: "take w (c # t') @ ?rest = c # (take n t' @ ?rest)"
      by (simp add: n)
    have dec: "DecodeRune (c # (take n t' @ ?rest)) = (r, w)"
      using vr(4) [of ?rest] tk by simp
    have dr: "drop w (c # (take n t' @ ?rest)) = ?rest"
      using vr(1) by (simp add: n)
    show ?thesis
      using unquote_rune [OF rune.hyps(1) dec] False vr(2) dr tk by simp
  qed
  have "unquote_loop (encodeString_loop (c # t') @ t)
      = put (take w (c # t')) (put (coerceUTF8 (drop w (c # t'))) (unquote_loop t))"
    unfolding encode_rune [OF rune.hyps(1,2,3)] using chunk IH by simp
  also have "\<dots> = put (coerceUTF8 (c # t')) (unquote_loop t)"
    by (simp only: put_put coerce_rune [OF rune.hyps(2,3)])
  finally show ?case .
qed

subsection \<open>Decoding an encoded record\<close>

lemma valueLength_step:
  "scan_byte sc c = sc' \<Longrightarrow> \<not> endTop sc' \<Longrightarrow> \<not> err sc'
     \<Longrightarrow> valueLength sc (c # data) = map_option Suc (valueLength sc' data)"
  by (simp add: Let_def)

lemma valueLength_end:
  "endTop (scan_byte sc c) \<Longrightarrow> parseState sc = [] \<Longrightarrow> valueLength sc (c # data) = Some 0"
  by (simp add: Let_def)

lemma nextValue_string: "nextValue (encodeString s @ c # rest) = Some (encodeString s, c # rest)"
proof -
  let ?s1 = "reset\<lparr>step := stateInString\<rparr>"
  let ?s2 = "reset\<lparr>step := stateEndValue\<rparr>"
  have i1: "instr ?s1" by (simp add: instr_def reset_def)
  have q: "quiet ?s1 (encodeString_loop s)" and f: "foldl scan_byte ?s1 (encodeString_loop s) = ?s1"
    using stays_encode [OF i1, of s] by (simp_all add: stays_def)
  have a: "scan_byte reset (CHR 0x22) = ?s1"
    by (simp add: scan_byte_def reset_def stepBeginValue_def isSpace_def)
  have b: "scan_byte ?s1 (CHR 0x22) = ?s2"
    by (simp add: scan_byte_def reset_def)
  have c: "endTop (scan_byte ?s2 c)"
    by (simp add: scan_byte_def reset_def stepEndValue_def stepEndTop_def scan_error_def)
  have "valueLength ?s2 (c # rest) = Some 0"
    using c by (rule valueLength_end) (simp add: reset_def)
  then have "valueLength ?s1 (CHR 0x22 # c # rest) = Some 1"
    using valueLength_step [OF b, of "c # rest"] by (simp add: reset_def)
  then have "valueLength ?s1 (encodeString_loop s @ CHR 0x22 # c # rest)
      = Some (length (encodeString_loop s) + 1)"
    using valueLength_quiet [OF q, of "CHR 0x22 # c # rest"] f by simp
  then have "valueLength reset (CHR 0x22 # encodeString_loop s @ CHR 0x22 # c # rest)
      = Some (length (encodeString_loop s) + 2)"
    using valueLength_step [OF a, of "encodeString_loop s @ CHR 0x22 # c # rest"]
    by (simp add: reset_def)
  then have "valueLength reset (encodeString s @ c # rest) = Some (length (encodeString s))"
    by (simp add: encodeString_def)
  then show ?thesis
    by (simp add: nextValue_def)
qed

lemma unquoteBytes_encodeString: "unquoteBytes (encodeString s) = Some (coerceUTF8 s)"
  using unquote_encode [of s "[]"]
  by (simp add: unquoteBytes_def encodeString_def unquote_Nil put_def nth_append)

lemma skipSpace_nonspace: "\<not> isSpace c \<Longrightarrow> skipSpace (c # data) = c # data"
  by (simp add: skipSpace_def)

lemma skipSpace_encodeString: "skipSpace (encodeString s @ data) = encodeString s @ data"
  by (simp add: skipSpace_def encodeString_def isSpace_def)

lemma store_string:
  "store (Some f) (encodeString s) v None = (setField f (coerceUTF8 s) v, None)"
  using unquoteBytes_encodeString [of s]
  by (simp add: store_def) (simp add: encodeString_def)

lemma quoted_facts:
  shows "nextValue (CHR 0x22 # encodeString_loop s @ CHR 0x22 # c # rest)
           = Some (CHR 0x22 # encodeString_loop s @ [CHR 0x22], c # rest)"
    and "unquoteBytes (CHR 0x22 # encodeString_loop s @ [CHR 0x22]) = Some (coerceUTF8 s)"
    and "store (Some f) (CHR 0x22 # encodeString_loop s @ [CHR 0x22]) v None
           = (setField f (coerceUTF8 s) v, None)"
    and "skipSpace (CHR 0x22 # x) = CHR 0x22 # x"
    and "skipSpace (CHR '':'' # x) = CHR '':'' # x"
    and "skipSpace (CHR '','' # x) = CHR '','' # x"
    and "skipSpace (CHR ''}'' # x) = CHR ''}'' # x"
  using nextValue_string [of s c rest] unquoteBytes_encodeString [of s] store_string [of f s v]
  by (simp_all add: encodeString_def skipSpace_def isSpace_def)

text \<open>
  One round of the decoder's loop over a member that the encoder wrote: the name is
  matched to its field and the field is set to the value, coerced to valid UTF-8.
\<close>

lemma object_member:
  assumes "findField [fieldDocStatus, fieldOwner] (coerceUTF8 name) None = Some f"
  shows "object (encodeString name @ CHR '':'' # encodeString s @ CHR '','' # rest) v None
           = object rest (setField f (coerceUTF8 s) v) None"
    and "object (encodeString name @ CHR '':'' # encodeString s @ CHR ''}'' # rest) v None
           = (setField f (coerceUTF8 s) v, None)"
  by (subst object.simps,
      simp add: encodeString_def quoted_facts assms del: findField.simps)+

definition inValue :: scanner where
  "inValue = \<lparr>step = stateInString, endTop = False, parseState = [parseObjectValue], err = False\<rparr>"

lemmas scan_defs = scan_byte_def stepBeginValue_def stepBeginString_def stepEndValue_def
  stepEndTop_def pushParseState_def popParseState_def scan_error_def isSpace_def eof_def
  step0_def stepESign_def expect_def isDigit_def

lemma scan_prefix: \<open>foldl scan_byte reset ''{"docStatus":"'' = inValue\<close>
  by (simp add: inValue_def reset_def scan_defs)

lemma scan_middle: \<open>foldl scan_byte inValue ''","owner":"'' = inValue\<close>
  by (simp add: inValue_def reset_def scan_defs)

lemma scan_suffix: \<open>eof (foldl scan_byte inValue ''"}'')\<close>
  by (simp add: inValue_def reset_def scan_defs)

lemma names_encoded:
  \<open>encodeString ''docStatus'' = ''"docStatus"''\<close>
  \<open>encodeString ''owner'' = ''"owner"''\<close>
  by (simp_all add: encodeString_def encode_ascii encode_Nil asciiChunk_def)

lemma names_valid: "ValidString ''docStatus''" "ValidString ''owner''"
  by (simp_all add: ValidString_ascii ValidString_Nil)

lemma names_found:
  "findField [fieldDocStatus, fieldOwner] (coerceUTF8 ''docStatus'') None = Some fieldDocStatus"
  "findField [fieldDocStatus, fieldOwner] (coerceUTF8 ''owner'') None = Some fieldOwner"
proof -
  have "findField [fieldDocStatus, fieldOwner] ''docStatus'' None = Some fieldDocStatus"
    "findField [fieldDocStatus, fieldOwner] ''owner'' None = Some fieldOwner"
    by code_simp+
  then show
    "findField [fieldDocStatus, fieldOwner] (coerceUTF8 ''docStatus'') None = Some fieldDocStatus"
    "findField [fieldDocStatus, fieldOwner] (coerceUTF8 ''owner'') None = Some fieldOwner"
    by (simp_all only: coerce_valid [OF names_valid(1)] coerce_valid [OF names_valid(2)])
qed

lemma Marshal_members:
  \<open>Marshal v = CHR ''{'' # encodeString ''docStatus'' @ CHR '':'' # encodeString (DocStatus v)
      @ CHR '','' # encodeString ''owner'' @ CHR '':'' # encodeString (Owner v) @ CHR ''}'' # []\<close>
  by (simp add: Marshal_def names_encoded)

lemma Marshal_pieces:
  \<open>Marshal v = ''{"docStatus":"'' @ encodeString_loop (DocStatus v) @ ''","owner":"''
      @ encodeString_loop (Owner v) @ ''"}''\<close>
  by (simp add: Marshal_def encodeString_def)

lemma checkValid_Marshal: "checkValid (Marshal v)"
proof -
  have i: "instr inValue" by (simp add: instr_def inValue_def)
  have s: "foldl scan_byte inValue (encodeString_loop x) = inValue" for x
    using stays_encode [OF i, of x] by (simp add: stays_def)
  show ?thesis
    unfolding checkValid_def Marshal_pieces foldl_append scan_prefix s scan_middle
    by (rule scan_suffix)
qed

text \<open>
  Decoding what \<open>Marshal\<close> wrote gives the record with both strings coerced to valid
  UTF-8, and no error; a record of valid strings comes back as it was.
\<close>

lemma Unmarshal_Marshal_coerced:
  "Unmarshal (Marshal v) v0
     = (\<lparr>DocStatus = coerceUTF8 (DocStatus v), Owner = coerceUTF8 (Owner v)\<rparr>, None)"
proof -
  let ?members = "encodeString ''docStatus'' @ CHR '':'' # encodeString (DocStatus v)
      @ CHR '','' # encodeString ''owner'' @ CHR '':'' # encodeString (Owner v) @ CHR ''}'' # []"
  have brace: \<open>skipSpace (CHR ''{'' # x) = CHR ''{'' # x\<close> for x
    by (rule skipSpace_nonspace) (simp add: isSpace_def)
  have "object ?members v0 None
    = object (encodeString ''owner'' @ CHR '':'' # encodeString (Owner v) @ CHR ''}'' # [])
        (setField fieldDocStatus (coerceUTF8 (DocStatus v)) v0) None"
    by (rule object_member(1) [OF names_found(1)])
  also have "\<dots> = (setField fieldOwner (coerceUTF8 (Owner v))
      (setField fieldDocStatus (coerceUTF8 (DocStatus v)) v0), None)"
    by (rule object_member(2) [OF names_found(2)])
  also have "setField fieldOwner (coerceUTF8 (Owner v))
      (setField fieldDocStatus (coerceUTF8 (DocStatus v)) v0)
      = \<lparr>DocStatus = coerceUTF8 (DocStatus v), Owner = coerceUTF8 (Owner v)\<rparr>"
    by (simp add: setField_def)
  finally have obj: "object ?members v0 None
      = (\<lparr>DocStatus = coerceUTF8 (DocStatus v), Owner = coerceUTF8 (Owner v)\<rparr>, None)" .
  have "skipSpace (Marshal v) = CHR ''{'' # ?members"
    unfolding Marshal_members by (rule brace)
  then have "Unmarshal (Marshal v) v0 = object ?members v0 None"
    using checkValid_Marshal [of v] by (simp add: Unmarshal_def)
  then show ?thesis using obj by simp
qed

lemma Unmarshal_Marshal:
  assumes "ValidString (DocStatus v)" "ValidString (Owner v)"
  shows "Unmarshal (Marshal v) v0 = (v, None)"
  using Unmarshal_Marshal_coerced [of v v0] coerce_valid [OF assms(1)] coerce_valid [OF assms(2)]
  by simp

subsection \<open>What the decoder returns is valid UTF-8\<close>

text \<open>
  \<open>unquoteBytes\<close> writes every rune with \<open>EncodeRune\<close>, and what \<open>EncodeRune\<close> writes is one
  valid sequence. So every string that \<open>json.Unmarshal\<close> stores into a field is valid
  UTF-8, whatever the text held; encoding such a string and decoding it again gives the
  same string.
\<close>

lemma decomp3: "r = (r div 4096) * 4096 + ((r div 64) mod 64) * 64 + (r::nat) mod 64"
proof -
  define q where "q = r div 64"
  define a where "a = r div 4096"
  define b where "b = q mod 64"
  define c where "c = r mod 64"
  have f1: "r = q * 64 + c"
    by (simp add: q_def c_def)
  have "r div (64 * 64) = r div 64 div 64"
    by (rule div_mult2_eq)
  then have qa: "q div 64 = a"
    by (simp add: q_def a_def)
  have "q div 64 * 64 + q mod 64 = q"
    by (rule div_mult_mod_eq)
  then have f2: "q = a * 64 + b"
    unfolding qa b_def by (rule sym)
  have "r = a * 4096 + b * 64 + c"
    unfolding f1 f2 by simp
  then show ?thesis
    by (simp add: a_def b_def c_def q_def)
qed

lemma decomp4:
  "r = (r div 262144) * 262144 + ((r div 4096) mod 64) * 4096 + ((r div 64) mod 64) * 64
       + (r::nat) mod 64"
proof -
  define p where "p = r div 4096"
  define a where "a = r div 262144"
  define b where "b = p mod 64"
  have "r div (4096 * 64) = r div 4096 div 64"
    by (rule div_mult2_eq)
  then have pa: "p div 64 = a"
    by (simp add: p_def a_def)
  have "p div 64 * 64 + p mod 64 = p"
    by (rule div_mult_mod_eq)
  then have f2: "p = a * 64 + b"
    unfolding pa b_def by (rule sym)
  have "r = p * 4096 + ((r div 64) mod 64) * 64 + r mod 64"
    unfolding p_def by (rule decomp3)
  then have "r = a * 262144 + b * 4096 + ((r div 64) mod 64) * 64 + r mod 64"
    unfolding f2 by simp
  then show ?thesis
    by (simp add: a_def b_def p_def)
qed

lemma ValidString_two:
  assumes "2 \<le> (a::nat)" "a < 32" "(b::nat) < 64"
  shows "ValidString (char_of (192 + a) # char_of (128 + b) # t) = ValidString t"
proof -
  let ?c0 = "char_of (192 + a) :: char" and ?c1 = "char_of (128 + b) :: char"
  have b0: "byte ?c0 = 192 + a" and b1: "byte ?c1 = 128 + b"
    using assms by simp_all
  have d: "DecodeRune (?c0 # ?c1 # t) = ((byte ?c0 - 192) * 64 + (byte ?c1 - 128), 2)"
    by (rule multi2(1)) (simp_all only: b0 b1, insert assms, simp_all)
  show ?thesis
    unfolding ValidString_rune [OF d] by simp
qed

lemma ValidString_three:
  assumes "(a::nat) < 16" "(b::nat) < 64" "(c::nat) < 64" "a = 0 \<longrightarrow> 32 \<le> b" "a = 13 \<longrightarrow> b < 32"
  shows "ValidString (char_of (224 + a) # char_of (128 + b) # char_of (128 + c) # t)
           = ValidString t"
proof -
  let ?c0 = "char_of (224 + a) :: char" and ?c1 = "char_of (128 + b) :: char"
    and ?c2 = "char_of (128 + c) :: char"
  have b0: "byte ?c0 = 224 + a" and b1: "byte ?c1 = 128 + b" and b2: "byte ?c2 = 128 + c"
    using assms by simp_all
  have d: "DecodeRune (?c0 # ?c1 # ?c2 # t)
      = ((byte ?c0 - 224) * 4096 + (byte ?c1 - 128) * 64 + (byte ?c2 - 128), 3)"
    by (rule multi3(1)) (simp_all only: b0 b1 b2, insert assms, auto)
  show ?thesis
    unfolding ValidString_rune [OF d] by simp
qed

lemma ValidString_four:
  assumes "(a::nat) < 5" "(b::nat) < 64" "(c::nat) < 64" "(d::nat) < 64" "a = 0 \<longrightarrow> 16 \<le> b" "a = 4 \<longrightarrow> b < 16"
  shows "ValidString (char_of (240 + a) # char_of (128 + b) # char_of (128 + c)
            # char_of (128 + d) # t) = ValidString t"
proof -
  let ?c0 = "char_of (240 + a) :: char" and ?c1 = "char_of (128 + b) :: char"
    and ?c2 = "char_of (128 + c) :: char" and ?c3 = "char_of (128 + d) :: char"
  have b0: "byte ?c0 = 240 + a" and b1: "byte ?c1 = 128 + b" and b2: "byte ?c2 = 128 + c"
    and b3: "byte ?c3 = 128 + d"
    using assms by simp_all
  have dec: "DecodeRune (?c0 # ?c1 # ?c2 # ?c3 # t)
      = ((byte ?c0 - 240) * 262144 + (byte ?c1 - 128) * 4096 + (byte ?c2 - 128) * 64
         + (byte ?c3 - 128), 4)"
    by (rule multi4(1)) (simp_all only: b0 b1 b2 b3, insert assms, auto)
  show ?thesis
    unfolding ValidString_rune [OF dec] by simp
qed

lemma replacement_bytes:
  "[CHR 0xEF, CHR 0xBF, CHR 0xBD] = [char_of (224 + (15::nat)), char_of (128 + (63::nat)), char_of (128 + (61::nat))]"
  by code_simp

lemma ValidString_EncodeRune: "ValidString (EncodeRune r @ t) = ValidString t"
proof -
  consider (one) "r \<le> 0x7F"
    | (two) "0x7F < r" "r \<le> 0x7FF"
    | (bad) "0x7FF < r" "0x10FFFF < r \<or> (0xD800 \<le> r \<and> r \<le> 0xDFFF)"
    | (three) "0x7FF < r" "r \<le> 0xFFFF" "\<not> (0xD800 \<le> r \<and> r \<le> 0xDFFF)"
    | (four) "0xFFFF < r" "r \<le> 0x10FFFF"
    by linarith
  then show ?thesis
  proof cases
    case one
    then have "r < 0x80" by simp
    then show ?thesis
      by (simp add: EncodeRune_ascii ValidString_ascii)
  next
    case two
    define a where "a = r div 64"
    define b where "b = r mod 64"
    have r: "r = a * 64 + b" by (simp add: a_def b_def)
    have b: "b < 64" by (simp add: b_def)
    have a: "2 \<le> a" "a < 32" using two r b by linarith+
    show ?thesis
      unfolding r EncodeRune_two [OF a b] using ValidString_two [OF a b] by simp
  next
    case bad
    then have "EncodeRune r = [CHR 0xEF, CHR 0xBF, CHR 0xBD]"
      by (auto simp: EncodeRune_def)
    then show ?thesis
      unfolding replacement_bytes using ValidString_three [of 15 63 61 t] by simp
  next
    case three
    define a where "a = r div 4096"
    define b where "b = (r div 64) mod 64"
    define c where "c = r mod 64"
    have r: "r = a * 4096 + b * 64 + c"
      unfolding a_def b_def c_def by (rule decomp3)
    have b: "b < 64" and c: "c < 64" by (simp_all add: b_def c_def)
    have a: "a < 16" using three(2) r by linarith
    have a0: "a = 0 \<longrightarrow> 32 \<le> b" using three(1) r c by auto
    have a13: "a = 13 \<longrightarrow> b < 32" using three(3) r b c by auto
    show ?thesis
      unfolding r EncodeRune_three [OF a b c a0 a13]
      using ValidString_three [OF a b c a0 a13] by simp
  next
    case four
    define a where "a = r div 262144"
    define b where "b = (r div 4096) mod 64"
    define c where "c = (r div 64) mod 64"
    define d where "d = r mod 64"
    have r: "r = a * 262144 + b * 4096 + c * 64 + d"
      unfolding a_def b_def c_def d_def by (rule decomp4)
    have b: "b < 64" and c: "c < 64" and d: "d < 64" by (simp_all add: b_def c_def d_def)
    have a: "a < 5" using four(2) r by linarith
    have a0: "a = 0 \<longrightarrow> 16 \<le> b" using four(1) r c d by auto
    have a4: "a = 4 \<longrightarrow> b < 16" using four(2) r by auto
    show ?thesis
      unfolding r EncodeRune_four [OF a b c d a0 a4]
      using ValidString_four [OF a b c d a0 a4] by simp
  qed
qed

lemma unquote_valid: "unquote_loop s = Some t \<Longrightarrow> ValidString t"
proof (induction s arbitrary: t rule: length_induct)
  case (1 s)
  show ?case
  proof (cases "s = []")
    case True
    then show ?thesis using "1.prems" by (simp add: unquote_Nil ValidString_Nil)
  next
    case False
    have P: "ValidString t'"
      if "put b (unquote_loop (drop k s)) = Some t'" "0 < k" "\<And>z. ValidString (b @ z) = ValidString z"
      for b k t'
    proof (cases "unquote_loop (drop k s)")
      case None
      then show ?thesis using that(1) by (simp add: put_def)
    next
      case (Some z)
      have "length (drop k s) < length s" using False that(2) by simp
      then have "ValidString z" using "1.IH" Some by blast
      moreover have "t' = b @ z" using that(1) Some by (simp add: put_def)
      ultimately show ?thesis using that(3) by simp
    qed
    have w: "0 < snd (DecodeRune s)"
      using False by (rule DecodeRune_width_pos)
    have one: "ValidString ([c] @ z) = ValidString z" if "byte c < 0x80" for c z
      using that by (simp add: ValidString_ascii)
    from "1.prems" False w show ?thesis
      apply (subst (asm) unquote_loop.simps)
      apply (simp add: Let_def split: if_splits option.splits prod.splits)
                   apply (erule P; auto simp: ValidString_ascii ValidString_EncodeRune)+
      done
  qed
qed

lemma unquoteBytes_valid: "unquoteBytes item = Some s \<Longrightarrow> ValidString s"
  by (auto simp: unquoteBytes_def split: if_splits dest: unquote_valid)

lemma store_valid: "validDoc v \<Longrightarrow> validDoc (fst (store f item v e))"
  by (auto simp: store_def Let_def setField_def validDoc_def
      split: option.splits field.splits dest: unquoteBytes_valid)

lemma store_valid2: "store f item v e = (v', e') \<Longrightarrow> validDoc v \<Longrightarrow> validDoc v'"
  using store_valid [of v f item e] by simp

lemma object_valid: "validDoc v \<Longrightarrow> validDoc (fst (object data v e))"
proof (induction data v e rule: object.induct)
  case (1 data v e)
  show ?case
    apply (subst object.simps)
    apply (insert "1.prems")
    apply (auto simp: Let_def simp del: findField.simps
        split: list.splits option.splits prod.splits
        dest: store_valid2 intro!: "1.IH")
    done
qed

lemma Unmarshal_valid: "validDoc v \<Longrightarrow> validDoc (fst (Unmarshal data v))"
  by (auto simp: Unmarshal_def object_valid split: list.splits)

lemma decoded_valid: "validDoc (fst (Unmarshal data \<lparr>DocStatus = [], Owner = []\<rparr>))"
  by (rule Unmarshal_valid) (simp add: validDoc_def ValidString_Nil)

lemma decoded_status:
  "coerceUTF8 (DocStatus (fst (Unmarshal data \<lparr>DocStatus = [], Owner = []\<rparr>)))
     = DocStatus (fst (Unmarshal data \<lparr>DocStatus = [], Owner = []\<rparr>))"
  using decoded_valid [of data] by (simp add: validDoc_def coerce_valid)

lemma Unmarshal_not_object:
  "\<not> checkValid data \<or> \<not> topLevelObject data \<Longrightarrow> fst (Unmarshal data v) = v"
  by (auto simp: Unmarshal_def topLevelObject_def split: list.splits)

section \<open>Dispatch and arity\<close>

text \<open>
  Claim C7. For every function name that is not one of the seven handler names, \<open>Invoke\<close>
  returns a failure whose message is that name followed by
  \<open>: Invalid Smart Contract function name.\<close>, and the ledger is left as it was; each of
  the seven names is dispatched to its own handler.
\<close>

theorem Invoke_dispatch:
  "(fn \<notin> set handlerNames \<longrightarrow>
      Invoke timeString stub fn args
        = (Error (fn @ '': Invalid Smart Contract function name.''), stub))
   \<and> Invoke timeString stub ''queryStudentDoc'' args = queryStudentDoc stub args
   \<and> Invoke timeString stub ''initLedger'' args = initLedger stub
   \<and> Invoke timeString stub ''createStudentDoc'' args = createStudentDoc stub args
   \<and> Invoke timeString stub ''queryAllStudentDocs'' args = queryAllStudentDocs stub
   \<and> Invoke timeString stub ''changeStudentDocOwner'' args = changeStudentDocOwner stub args
   \<and> Invoke timeString stub ''changeStudentDocStatus'' args = changeStudentDocStatus stub args
   \<and> Invoke timeString stub ''getHistoryForStudentDoc'' args
       = getHistoryForStudentDoc timeString stub args"
  by (simp add: Invoke_def handlerNames_def)

theorem Invoke_dispatch_witness:
  "''deleteStudentDoc'' \<notin> set handlerNames
   \<and> Invoke exampleTime exampleStub ''deleteStudentDoc'' [''doc1'']
       = (Error ''deleteStudentDoc: Invalid Smart Contract function name.'', exampleStub)"
proof -
  have absent: "''deleteStudentDoc'' \<notin> set handlerNames"
    by (simp add: handlerNames_def)
  with Invoke_dispatch [of "''deleteStudentDoc''" exampleTime exampleStub "[''doc1'']"]
  show ?thesis by simp
qed

text \<open>
  The four handlers that compare the number of arguments with \<open>!=\<close> fail on every other
  number, and leave the ledger as it was; \<open>getHistoryForStudentDoc\<close> fails on the empty
  list.
\<close>

lemma wrong_arity_fails:
  "length args \<noteq> 1 \<Longrightarrow>
     queryStudentDoc stub args = (Error ''Incorrect number of arguments. Expecting 1'', stub)"
  "length args \<noteq> 3 \<Longrightarrow>
     createStudentDoc stub args = (Error ''Incorrect number of arguments. Expecting 3'', stub)"
  "length args \<noteq> 2 \<Longrightarrow>
     changeStudentDocOwner stub args = (Error ''Incorrect number of arguments. Expecting 2'', stub)"
  "length args \<noteq> 3 \<Longrightarrow>
     changeStudentDocStatus stub args = (Error ''Incorrect number of arguments. Expecting 3'', stub)"
  "getHistoryForStudentDoc timeString stub []
     = (Error ''Incorrect number of arguments. Expecting 1'', stub)"
  by (simp_all add: queryStudentDoc_def createStudentDoc_def changeStudentDocOwner_def
      changeStudentDocStatus_def getHistoryForStudentDoc_def)

text \<open>
  Claim C1. The claim asks every handler to fail when the number of arguments differs
  from its arity. \<open>getHistoryForStudentDoc\<close>, whose message says that it expects one
  argument, tests \<open>len(args) < 1\<close> only: called with two arguments it reads the first,
  ignores the second and succeeds.
\<close>

theorem getHistory_two_arguments_succeeds:
  \<open>getHistoryForStudentDoc timeString (exampleStub\<lparr>History := \<lambda>key. Inr []\<rparr>)
      [''doc1'', ''extra'']
    = (Success ''[]'', exampleStub\<lparr>History := \<lambda>key. Inr []\<rparr>)\<close>
  by (simp add: getHistoryForStudentDoc_def GetHistoryForKey_def)

section \<open>The query handlers\<close>

text \<open>
  Claim C8. With exactly one argument, \<open>queryStudentDoc\<close> succeeds for every key and
  every ledger; its payload is the bytes that the ledger holds for the key, and the
  empty payload when the key is absent.
\<close>

theorem queryStudentDoc_raw_bytes:
  "queryStudentDoc stub [key] =
     (Success (case map_of (State stub) key of None \<Rightarrow> [] | Some v \<Rightarrow> v), stub)"
  by (simp add: queryStudentDoc_def GetState_def)

text \<open>
  Claim C10. The three query handlers return the stub that they were given: whatever
  the arguments and the ledger, and whether they succeed or fail, the world state (and
  the rest of the host's state) after the call is the one before it.
\<close>

theorem queries_keep_ledger:
  "snd (queryStudentDoc stub args) = stub
   \<and> snd (queryAllStudentDocs stub) = stub
   \<and> snd (getHistoryForStudentDoc timeString stub args) = stub"
  by (simp add: queryStudentDoc_def queryAllStudentDocs_def getHistoryForStudentDoc_def Let_def
      split: sum.split)

subsection \<open>The history of a key\<close>

lemma history_loop_entries:
  "history_loop timeString (map Inr ms) buffer written =
     Inr (buffer @ (if written \<and> ms \<noteq> [] then '','' else [])
          @ joinComma (map (historyEntry timeString) ms))"
proof (induction ms arbitrary: buffer written)
  case Nil
  then show ?case by simp
next
  case (Cons m ms)
  show ?case
  proof (cases ms)
    case Nil
    then show ?thesis by (simp add: historyEntry_def FormatBool_def)
  next
    case (Cons m' ms')
    then show ?thesis
      using Cons.IH [of "(if written then buffer @ '','' else buffer) @ historyEntry timeString m" True]
      by (simp add: historyEntry_def FormatBool_def)
  qed
qed

text \<open>
  Claim C9, at an input where it fails. The one entry of the history is not a deletion,
  and the value stored with it is the JSON text \<open>null\<close>. The handler copies the value of
  such an entry as it is, so the entry of the payload reads \<open>"Value":null\<close> beside
  \<open>"IsDelete":"false"\<close>: the \<open>Value\<close> member is \<open>null\<close> although the entry is no deletion.
\<close>

theorem getHistory_null_counterexample:
  \<open>GetHistoryForKey storedNullStub ''doc1''
     = Inr [Inr \<lparr>TxId = ''tx1'', Value = ''null'',
                 Timestamp = \<lparr>Seconds = 1500000000, Nanos = 0\<rparr>, IsDelete = False\<rparr>]
   \<and> fst (getHistoryForStudentDoc (\<lambda>seconds nanos. ''T'') storedNullStub [''doc1''])
       = Success ''[{"TxId":"tx1", "Value":null, "Timestamp":"T", "IsDelete":"false"}]''\<close>
  by (simp add: getHistoryForStudentDoc_def GetHistoryForKey_def storedNullStub_def
      FormatBool_def)

text \<open>
  Claim C9, amended. When the history iterator of the host yields the entries \<open>ms\<close>, in
  that order and without an error, \<open>getHistoryForStudentDoc\<close> succeeds and its payload is
  the array of their entries in the same order; in each entry the \<open>IsDelete\<close> member is the
  deletion flag of the entry, and the \<open>Value\<close> member is \<open>null\<close> when the flag is set and
  otherwise the stored value, byte for byte (so that it also reads \<open>null\<close> for an entry
  that is no deletion and whose stored value is that text).
\<close>

theorem getHistory_entries:
  assumes "args \<noteq> []" and "GetHistoryForKey stub (args ! 0) = Inr (map Inr ms)"
  shows "getHistoryForStudentDoc timeString stub args
           = (Success (jsonArray (map (historyEntry timeString) ms)), stub)"
  using assms
  by (simp add: getHistoryForStudentDoc_def history_loop_entries jsonArray_def)

theorem getHistory_entries_witness:
  \<open>[''doc1''] \<noteq> []
   \<and> GetHistoryForKey exampleStub ([''doc1''] ! 0)
       = Inr (map Inr
           [\<lparr>TxId = ''tx1'', Value = ''{"docStatus":"scanned","owner":"Alice"}'',
             Timestamp = \<lparr>Seconds = 1500000000, Nanos = 0\<rparr>, IsDelete = False\<rparr>,
            \<lparr>TxId = ''tx2'', Value = [],
             Timestamp = \<lparr>Seconds = 1500000060, Nanos = 0\<rparr>, IsDelete = True\<rparr>])
   \<and> getHistoryForStudentDoc (\<lambda>seconds nanos. ''T'') exampleStub [''doc1'']
       = (Success (''[{"TxId":"tx1", "Value":{"docStatus":"scanned","owner":"Alice"}, ''
                   @ ''"Timestamp":"T", "IsDelete":"false"},''
                   @ ''{"TxId":"tx2", "Value":null, "Timestamp":"T", "IsDelete":"true"}]''),
          exampleStub)\<close>
proof -
  have h: \<open>GetHistoryForKey exampleStub ([''doc1''] ! 0)
       = Inr (map Inr
           [\<lparr>TxId = ''tx1'', Value = ''{"docStatus":"scanned","owner":"Alice"}'',
             Timestamp = \<lparr>Seconds = 1500000000, Nanos = 0\<rparr>, IsDelete = False\<rparr>,
            \<lparr>TxId = ''tx2'', Value = [],
             Timestamp = \<lparr>Seconds = 1500000060, Nanos = 0\<rparr>, IsDelete = True\<rparr>])\<close>
    by (simp add: GetHistoryForKey_def exampleStub_def)
  have ne: "[''doc1''] \<noteq> []" by simp
  show ?thesis
    using h getHistory_entries [OF ne h, of "\<lambda>seconds nanos. ''T''"]
    by (simp add: jsonArray_def historyEntry_def)
qed

section \<open>Seeding the ledger and reading it back\<close>

lemma update_absent: "k \<notin> fst ` set al \<Longrightarrow> AList.update k v al = al @ [(k, v)]"
  by (induction al) auto

lemma putAll_append:
  "distinct (map fst es) \<Longrightarrow> fst ` set es \<inter> fst ` set al = {} \<Longrightarrow> putAll es al = al @ es"
proof (induction es arbitrary: al)
  case Nil
  then show ?case by (simp add: putAll_def)
next
  case (Cons e es)
  have absent: "fst e \<notin> fst ` set al"
    using Cons.prems(2) by auto
  have "putAll (e # es) al = putAll es (al @ [(fst e, snd e)])"
    using update_absent [OF absent] by (simp add: putAll_def)
  also have "\<dots> = (al @ [(fst e, snd e)]) @ es"
  proof (rule Cons.IH)
    show "distinct (map fst es)" using Cons.prems(1) by simp
    show "fst ` set es \<inter> fst ` set (al @ [(fst e, snd e)]) = {}"
      using Cons.prems by auto
  qed
  finally show ?case by simp
qed

lemma clearjunk_putAll: "AList.clearjunk (putAll es al) = putAll es (AList.clearjunk al)"
  by (induction es arbitrary: al) (simp_all add: putAll_def clearjunk_update)

lemma rangeItems_putAll:
  assumes out: "\<forall>kv\<in>set al. \<not> inRange lo hi kv"
    and inside: "\<forall>kv\<in>set es. inRange lo hi kv"
    and sorted: "sorted (map fst es)" and dist: "distinct (map fst es)"
  shows "rangeItems (putAll es al) lo hi = es"
proof -
  have keys: "fst ` set es \<inter> fst ` set (AList.clearjunk al) = {}"
  proof -
    have "k \<notin> fst ` set al" if "k \<in> fst ` set es" for k
    proof
      assume "k \<in> fst ` set al"
      then obtain kv where kv: "kv \<in> set al" "fst kv = k" by auto
      from that obtain kv' where kv': "kv' \<in> set es" "fst kv' = k" by auto
      have "inRange lo hi kv'" using inside kv'(1) by blast
      then have "inRange lo hi kv" using kv(2) kv'(2) by (simp add: inRange_def)
      then show False using out kv(1) by blast
    qed
    then show ?thesis by (auto simp: dom_clearjunk)
  qed
  have out': "\<forall>kv\<in>set (AList.clearjunk al). \<not> inRange lo hi kv"
  proof
    fix kv assume "kv \<in> set (AList.clearjunk al)"
    then have "fst kv \<in> fst ` set al"
      using dom_clearjunk [of al] by (metis imageI)
    then obtain kv' where kv': "kv' \<in> set al" "fst kv' = fst kv" by auto
    have "\<not> inRange lo hi kv'" using out kv'(1) by blast
    then show "\<not> inRange lo hi kv"
      using kv'(2) by (simp add: inRange_def)
  qed
  have "AList.clearjunk (putAll es al) = AList.clearjunk al @ es"
    using putAll_append [OF dist keys] by (simp add: clearjunk_putAll)
  then have "filter (inRange lo hi) (AList.clearjunk (putAll es al)) = es"
    using out' inside by simp
  then show ?thesis
    using sorted by (simp add: rangeItems_def sort_key_id_if_sorted)
qed

lemma initLedger_loop_fold:
  "initLedger_loop docs i stub =
     fold (\<lambda>j s. PutState s (''StudentDoc'' @ Itoa (int j)) (Marshal (docs ! j))) [i..<length docs] stub"
proof (induction docs i stub rule: initLedger_loop.induct)
  case (1 docs i stub)
  show ?case
  proof (cases "i < length docs")
    case True
    then show ?thesis
      using "1.IH" [OF True refl] by (subst initLedger_loop.simps) (simp add: upt_rec [of i] Let_def)
  next
    case False
    then show ?thesis by (subst initLedger_loop.simps) simp
  qed
qed

lemma fold_PutState:
  "fold (\<lambda>j s. PutState s (k j) (v j)) js stub = stub\<lparr>State := putAll (map (\<lambda>j. (k j, v j)) js) (State stub)\<rparr>"
  by (induction js arbitrary: stub) (simp_all add: putAll_def PutState_def)

lemma seed_entries:
  \<open>map (\<lambda>j. (''StudentDoc'' @ Itoa (int j), Marshal (studentDocs ! j))) [0..<length studentDocs]
   = zip seedKeys (map Marshal studentDocs)\<close>
  by code_simp

lemma seed_literal:
  \<open>zip seedKeys (map Marshal studentDocs) =
    [(''StudentDoc0'', ''{"docStatus":"scanned","owner":"Tomoko"}''),
     (''StudentDoc1'', ''{"docStatus":"transmitted responses","owner":"Jack"}''),
     (''StudentDoc2'', ''{"docStatus":"received responses","owner":"John"}''),
     (''StudentDoc3'', ''{"docStatus":"machine scored","owner":"Mark"}''),
     (''StudentDoc4'', ''{"docStatus":"human scored","owner":"Tim"}''),
     (''StudentDoc5'', ''{"docStatus":"scores exported","owner":"Jane"}''),
     (''StudentDoc6'', ''{"docStatus":"transmitted scores","owner":"Peter"}''),
     (''StudentDoc7'', ''{"docStatus":"received scores","owner":"Sid"}''),
     (''StudentDoc8'', ''{"docStatus":"scores reported","owner":"Mesut"}'')]\<close>
  by code_simp

lemma seed_in_range:
  "\<forall>kv\<in>set (zip seedKeys (map Marshal studentDocs)). inRange ''StudentDoc0'' ''StudentDoc999'' kv"
  unfolding seed_literal by (simp add: inRange_def)

lemma seed_sorted: "sorted (map fst (zip seedKeys (map Marshal studentDocs)))"
  unfolding seed_literal by simp

lemma seed_distinct: "distinct (map fst (zip seedKeys (map Marshal studentDocs)))"
  unfolding seed_literal by simp

lemma queryAll_loop_entries:
  "queryAll_loop (map Inr es) buffer written =
     Inr (buffer @ (if written \<and> es \<noteq> [] then '','' else []) @ joinComma (map rangeEntry es))"
proof (induction es arbitrary: buffer written)
  case Nil
  then show ?case by simp
next
  case (Cons e es)
  obtain k v where e: "e = (k, v)" by (cases e)
  show ?case
  proof (cases es)
    case Nil
    then show ?thesis by (simp add: e rangeEntry_def)
  next
    case (Cons e' es')
    then show ?thesis
      using Cons.IH [of "(if written then buffer @ '','' else buffer) @ rangeEntry e" True]
      by (simp add: e rangeEntry_def)
  qed
qed

text \<open>
  Claim C3. On a ledger that holds no key in the scanned range
  \<open>StudentDoc0 \<le> key < StudentDoc999\<close>, and with a range query that does not fail,
  \<open>initLedger\<close> succeeds and \<open>queryAllStudentDocs\<close> after it succeeds with the array of
  exactly nine entries: the keys \<open>StudentDoc0\<close> to \<open>StudentDoc8\<close> in ascending order, each
  with the encoding of the seed record of the same index. The third part writes the
  payload out.
\<close>

theorem initLedger_then_queryAll:
  assumes "RangeFault stub = NoFault"
    and "\<forall>kv\<in>set (State stub). \<not> inRange ''StudentDoc0'' ''StudentDoc999'' kv"
  shows \<open>fst (initLedger stub) = Success []
    \<and> queryAllStudentDocs (snd (initLedger stub))
        = (Success (jsonArray (map rangeEntry (zip seedKeys (map Marshal studentDocs)))),
           snd (initLedger stub))
    \<and> jsonArray (map rangeEntry (zip seedKeys (map Marshal studentDocs)))
        = ''[{"Key":"StudentDoc0", "Record":{"docStatus":"scanned","owner":"Tomoko"}},''
          @ ''{"Key":"StudentDoc1", "Record":{"docStatus":"transmitted responses","owner":"Jack"}},''
          @ ''{"Key":"StudentDoc2", "Record":{"docStatus":"received responses","owner":"John"}},''
          @ ''{"Key":"StudentDoc3", "Record":{"docStatus":"machine scored","owner":"Mark"}},''
          @ ''{"Key":"StudentDoc4", "Record":{"docStatus":"human scored","owner":"Tim"}},''
          @ ''{"Key":"StudentDoc5", "Record":{"docStatus":"scores exported","owner":"Jane"}},''
          @ ''{"Key":"StudentDoc6", "Record":{"docStatus":"transmitted scores","owner":"Peter"}},''
          @ ''{"Key":"StudentDoc7", "Record":{"docStatus":"received scores","owner":"Sid"}},''
          @ ''{"Key":"StudentDoc8", "Record":{"docStatus":"scores reported","owner":"Mesut"}}]''\<close>
proof -
  let ?es = "zip seedKeys (map Marshal studentDocs)"
  have after: "snd (initLedger stub) = stub\<lparr>State := putAll ?es (State stub)\<rparr>"
    by (simp only: initLedger_def snd_conv initLedger_loop_fold fold_PutState seed_entries)
  have items: "rangeItems (putAll ?es (State stub)) ''StudentDoc0'' ''StudentDoc999'' = ?es"
    using assms(2) seed_in_range seed_sorted seed_distinct by (rule rangeItems_putAll)
  have scan: "GetStateByRange (snd (initLedger stub)) ''StudentDoc0'' ''StudentDoc999''
      = Inr (map Inr ?es)"
    using assms(1) by (simp add: GetStateByRange_def after items)
  have query: "queryAllStudentDocs (snd (initLedger stub))
      = (Success (jsonArray (map rangeEntry ?es)), snd (initLedger stub))"
    by (simp add: queryAllStudentDocs_def scan queryAll_loop_entries jsonArray_def)
  have literal: \<open>jsonArray (map rangeEntry ?es)
        = ''[{"Key":"StudentDoc0", "Record":{"docStatus":"scanned","owner":"Tomoko"}},''
          @ ''{"Key":"StudentDoc1", "Record":{"docStatus":"transmitted responses","owner":"Jack"}},''
          @ ''{"Key":"StudentDoc2", "Record":{"docStatus":"received responses","owner":"John"}},''
          @ ''{"Key":"StudentDoc3", "Record":{"docStatus":"machine scored","owner":"Mark"}},''
          @ ''{"Key":"StudentDoc4", "Record":{"docStatus":"human scored","owner":"Tim"}},''
          @ ''{"Key":"StudentDoc5", "Record":{"docStatus":"scores exported","owner":"Jane"}},''
          @ ''{"Key":"StudentDoc6", "Record":{"docStatus":"transmitted scores","owner":"Peter"}},''
          @ ''{"Key":"StudentDoc7", "Record":{"docStatus":"received scores","owner":"Sid"}},''
          @ ''{"Key":"StudentDoc8", "Record":{"docStatus":"scores reported","owner":"Mesut"}}]''\<close>
    unfolding seed_literal by (simp add: jsonArray_def rangeEntry_def)
  show ?thesis
    using query literal by (simp add: initLedger_def)
qed


theorem initLedger_then_queryAll_witness:
  \<open>RangeFault exampleStub = NoFault
   \<and> filter (inRange ''StudentDoc0'' ''StudentDoc999'') (State exampleStub) = []
   \<and> queryAllStudentDocs (snd (initLedger exampleStub))
       = (Success (jsonArray (map rangeEntry (zip seedKeys (map Marshal studentDocs)))),
          snd (initLedger exampleStub))\<close>
proof -
  have fault: "RangeFault exampleStub = NoFault"
    by (simp add: exampleStub_def)
  have none: "filter (inRange ''StudentDoc0'' ''StudentDoc999'') (State exampleStub) = []"
    by (simp add: exampleStub_def inRange_def)
  then have out: "\<forall>kv\<in>set (State exampleStub). \<not> inRange ''StudentDoc0'' ''StudentDoc999'' kv"
    by (simp add: filter_empty_conv)
  show ?thesis
    using fault none initLedger_then_queryAll [OF fault out] by blast
qed

section \<open>Writing a record and reading it back\<close>

lemma GetState_PutState:
  "GetState (PutState stub key v) k = (if k = key then v else GetState stub k)"
  by (simp add: GetState_def PutState_def update_conv')

lemma map_of_PutState:
  "map_of (State (PutState stub key v)) k = (if k = key then Some v else map_of (State stub) k)"
  by (simp add: PutState_def update_conv')

lemma checkValid_empty: "\<not> checkValid []"
  by (simp add: checkValid_def reset_def scan_defs)

lemma Unmarshal_invalid: "\<not> checkValid data \<Longrightarrow> Unmarshal data v = (v, Some SyntaxError)"
  by (simp add: Unmarshal_def)

lemma coerce_examples:
  "coerceUTF8 ''scanned'' = ''scanned''" "coerceUTF8 ''Alice'' = ''Alice''"
  "coerceUTF8 ''Bob'' = ''Bob''" "coerceUTF8 [] = []"
  "coerceUTF8 [CHR 0xFF] = [CHR 0xEF, CHR 0xBF, CHR 0xBD]"
  by (simp_all add: coerce_ascii coerce_Nil coerce_invalid DecodeRune_bad_lead)

lemma valid_examples: "ValidString ''scanned''" "ValidString ''Alice''" "ValidString ''Bob''"
  by (simp_all add: ValidString_ascii ValidString_Nil)

lemma Marshal_examples:
  \<open>Marshal \<lparr>DocStatus = ''scanned'', Owner = ''Alice''\<rparr> = ''{"docStatus":"scanned","owner":"Alice"}''\<close>
  \<open>Marshal \<lparr>DocStatus = ''scanned'', Owner = ''Bob''\<rparr> = ''{"docStatus":"scanned","owner":"Bob"}''\<close>
  \<open>Marshal \<lparr>DocStatus = [], Owner = ''Bob''\<rparr> = ''{"docStatus":"","owner":"Bob"}''\<close>
  \<open>Marshal \<lparr>DocStatus = ''scanned'', Owner = [CHR 0xFF]\<rparr>
     = ''{"docStatus":"scanned","owner":"'' @ [CHR 0x5C] @ ''ufffd"}''\<close>
  by (simp_all add: Marshal_def encodeString_def encode_ascii encode_Nil asciiChunk_def
      encode_invalid DecodeRune_bad_lead)

lemma nextValue_seven:
  "nextValue (CHR ''7'' # CHR ''}'' # rest) = Some (''7'', CHR ''}'' # rest)"
proof -
  have a: "scan_byte reset (CHR ''7'') = reset\<lparr>step := state1\<rparr>"
    by (simp add: reset_def scan_defs less_eq_char_def)
  have b: "endTop (scan_byte (reset\<lparr>step := state1\<rparr>) (CHR ''}''))"
    by (simp add: reset_def scan_defs less_eq_char_def)
  have "valueLength (reset\<lparr>step := state1\<rparr>) (CHR ''}'' # rest) = Some 0"
    using b by (rule valueLength_end) (simp add: reset_def)
  then have "valueLength reset (CHR ''7'' # CHR ''}'' # rest) = Some 1"
    using valueLength_step [OF a, of "CHR ''}'' # rest"] by (simp add: reset_def)
  then show ?thesis by (simp add: nextValue_def)
qed

lemma number_member:
  assumes "findField [fieldDocStatus, fieldOwner] (coerceUTF8 name) None = Some f"
  shows "object (encodeString name @ CHR '':'' # CHR ''7'' # CHR ''}'' # rest) v None
           = (v, Some UnmarshalTypeError)"
  by (subst object.simps)
    (simp add: encodeString_def quoted_facts assms nextValue_seven store_def saveError_def
      skipSpace_def isSpace_def del: findField.simps)

lemma mistyped_valid: \<open>checkValid ''{"docStatus":"scanned","owner":7}''\<close>
  by (simp add: checkValid_def reset_def scan_defs less_eq_char_def)

lemma mistyped_decoded:
  \<open>Unmarshal ''{"docStatus":"scanned","owner":7}'' \<lparr>DocStatus = [], Owner = []\<rparr>
     = (\<lparr>DocStatus = ''scanned'', Owner = []\<rparr>, Some UnmarshalTypeError)\<close>
proof -
  let ?v0 = "\<lparr>DocStatus = [], Owner = []\<rparr>"
  have enc: \<open>encodeString ''scanned'' = ''"scanned"''\<close>
    by (simp add: encodeString_def encode_ascii encode_Nil asciiChunk_def)
  have members: \<open>''"docStatus":"scanned","owner":7}''
      = encodeString ''docStatus'' @ CHR '':'' # encodeString ''scanned'' @ CHR '','' #
        (encodeString ''owner'' @ CHR '':'' # CHR ''7'' # CHR ''}'' # [])\<close>
    by (simp add: names_encoded enc)
  have "object (encodeString ''docStatus'' @ CHR '':'' # encodeString ''scanned'' @ CHR '','' #
        (encodeString ''owner'' @ CHR '':'' # CHR ''7'' # CHR ''}'' # [])) ?v0 None
      = object (encodeString ''owner'' @ CHR '':'' # CHR ''7'' # CHR ''}'' # [])
          (setField fieldDocStatus (coerceUTF8 ''scanned'') ?v0) None"
    by (rule object_member(1) [OF names_found(1)])
  also have "\<dots> = (setField fieldDocStatus (coerceUTF8 ''scanned'') ?v0, Some UnmarshalTypeError)"
    by (rule number_member [OF names_found(2)])
  finally have obj: \<open>object ''"docStatus":"scanned","owner":7}'' ?v0 None
      = (\<lparr>DocStatus = ''scanned'', Owner = []\<rparr>, Some UnmarshalTypeError)\<close>
    unfolding members [symmetric] by (simp add: setField_def coerce_examples)
  have sk: \<open>skipSpace ''{"docStatus":"scanned","owner":7}''
      = CHR ''{'' # ''"docStatus":"scanned","owner":7}''\<close>
    by (simp add: skipSpace_def isSpace_def)
  show ?thesis
    using mistyped_valid obj by (simp add: Unmarshal_def sk)
qed

text \<open>
  Claim C2, at an input where it fails. The owner is the single byte \<open>0xFF\<close>, which is
  not valid UTF-8. \<open>createStudentDoc\<close> succeeds; \<open>json.Marshal\<close> has written the owner as
  \<open>\ufffd\<close>, so the payload of \<open>queryStudentDoc\<close> decodes to the owner \<open>U+FFFD\<close> (the bytes
  \<open>EF BF BD\<close>), not to the owner that was given.
\<close>

theorem create_then_query_counterexample:
  \<open>fst (createStudentDoc exampleStub [''doc2'', ''scanned'', [CHR 0xFF]]) = Success []
   \<and> fst (queryStudentDoc (snd (createStudentDoc exampleStub [''doc2'', ''scanned'', [CHR 0xFF]]))
        [''doc2''])
       = Success (''{"docStatus":"scanned","owner":"'' @ [CHR 0x5C] @ ''ufffd"}'')
   \<and> Unmarshal (''{"docStatus":"scanned","owner":"'' @ [CHR 0x5C] @ ''ufffd"}'')
         \<lparr>DocStatus = [], Owner = []\<rparr>
       = (\<lparr>DocStatus = ''scanned'', Owner = [CHR 0xEF, CHR 0xBF, CHR 0xBD]\<rparr>, None)
   \<and> [CHR 0xEF, CHR 0xBF, CHR 0xBD] \<noteq> [CHR 0xFF]\<close>
proof -
  have "Unmarshal (Marshal \<lparr>DocStatus = ''scanned'', Owner = [CHR 0xFF]\<rparr>)
         \<lparr>DocStatus = [], Owner = []\<rparr>
       = (\<lparr>DocStatus = ''scanned'', Owner = [CHR 0xEF, CHR 0xBF, CHR 0xBD]\<rparr>, None)"
    by (simp add: Unmarshal_Marshal_coerced coerce_examples)
  then show ?thesis
    by (simp add: createStudentDoc_def queryStudentDoc_def GetState_PutState Marshal_examples)
qed

text \<open>
  Claim C2, amended. For every key, every ledger, and every status and owner that are
  valid UTF-8, \<open>createStudentDoc\<close> succeeds, \<open>queryStudentDoc\<close> of the key then succeeds
  with the encoding of the record as its payload, and the payload decodes, without
  error and into any record, to exactly that status and that owner.
\<close>

theorem create_then_query:
  assumes "ValidString status" "ValidString owner"
  shows "fst (createStudentDoc stub [key, status, owner]) = Success []
    \<and> queryStudentDoc (snd (createStudentDoc stub [key, status, owner])) [key]
        = (Success (Marshal \<lparr>DocStatus = status, Owner = owner\<rparr>),
           snd (createStudentDoc stub [key, status, owner]))
    \<and> Unmarshal (Marshal \<lparr>DocStatus = status, Owner = owner\<rparr>) v0
        = (\<lparr>DocStatus = status, Owner = owner\<rparr>, None)"
proof -
  have "Unmarshal (Marshal \<lparr>DocStatus = status, Owner = owner\<rparr>) v0
        = (\<lparr>DocStatus = status, Owner = owner\<rparr>, None)"
    using assms by (intro Unmarshal_Marshal) simp_all
  then show ?thesis
    by (simp add: createStudentDoc_def queryStudentDoc_def GetState_PutState)
qed

theorem create_then_query_witness:
  \<open>ValidString ''scanned'' \<and> ValidString ''Alice''
   \<and> fst (queryStudentDoc (snd (createStudentDoc exampleStub [''doc1'', ''scanned'', ''Alice'']))
        [''doc1''])
       = Success ''{"docStatus":"scanned","owner":"Alice"}''
   \<and> Unmarshal ''{"docStatus":"scanned","owner":"Alice"}'' \<lparr>DocStatus = [], Owner = []\<rparr>
       = (\<lparr>DocStatus = ''scanned'', Owner = ''Alice''\<rparr>, None)\<close>
  using create_then_query [OF valid_examples(1,2), of exampleStub "''doc1''"
      "\<lparr>DocStatus = [], Owner = []\<rparr>"] valid_examples(1,2)
  by (simp add: Marshal_examples)

section \<open>Changing a record\<close>

text \<open>
  What the two handlers return and write, in terms of the record that \<open>json.Unmarshal\<close>
  left: the error of the decoder plays no part in it.
\<close>

lemma changeOwner_result:
  "changeStudentDocOwner stub [key, newOwner]
     = (Success [],
        PutState stub key
          (Marshal \<lparr>DocStatus = DocStatus (fst (Unmarshal (GetState stub key)
                                                  \<lparr>DocStatus = [], Owner = []\<rparr>)),
                    Owner = newOwner\<rparr>))"
proof -
  have e: "d\<lparr>Owner := newOwner\<rparr> = \<lparr>DocStatus = DocStatus d, Owner = newOwner\<rparr>"
    for d :: StudentDoc
    by simp
  show ?thesis
    by (simp add: changeStudentDocOwner_def e)
qed

lemma changeStatus_result:
  "changeStudentDocStatus stub [key, newOwner, newStatus]
     = (Success [], PutState stub key (Marshal \<lparr>DocStatus = newStatus, Owner = newOwner\<rparr>))"
proof -
  have e: "d\<lparr>Owner := newOwner, DocStatus := newStatus\<rparr>
      = \<lparr>DocStatus = newStatus, Owner = newOwner\<rparr>"
    for d :: StudentDoc
    by simp
  show ?thesis
    by (simp add: changeStudentDocStatus_def e)
qed

lemma example_decoded:
  \<open>Unmarshal ''{"docStatus":"scanned","owner":"Alice"}'' \<lparr>DocStatus = [], Owner = []\<rparr>
     = (\<lparr>DocStatus = ''scanned'', Owner = ''Alice''\<rparr>, None)\<close>
  unfolding Marshal_examples(1) [symmetric]
  by (rule Unmarshal_Marshal) (simp_all add: valid_examples)

lemma valid_more: \<open>ValidString ''Bo"b''\<close> "ValidString ''scored & sent''"
  by (simp_all add: ValidString_ascii ValidString_Nil)

lemma Marshal_more:
  \<open>Marshal \<lparr>DocStatus = ''scanned'', Owner = ''Bo"b''\<rparr>
     = ''{"docStatus":"scanned","owner":"Bo'' @ [CHR 0x5C] @ ''"b"}''\<close>
  \<open>Marshal \<lparr>DocStatus = ''scored & sent'', Owner = ''Bob''\<rparr>
     = ''{"docStatus":"scored '' @ [CHR 0x5C] @ ''u0026 sent","owner":"Bob"}''\<close>
  \<open>Marshal \<lparr>DocStatus = [CHR 0xFF], Owner = [CHR 0xFF]\<rparr>
     = ''{"docStatus":"'' @ [CHR 0x5C] @ ''ufffd","owner":"'' @ [CHR 0x5C] @ ''ufffd"}''\<close>
  \<open>Marshal \<lparr>DocStatus = ''human scored'', Owner = ''Bob''\<rparr>
     = ''{"docStatus":"human scored","owner":"Bob"}''\<close>
  by (simp_all add: Marshal_def encodeString_def encode_ascii encode_Nil asciiChunk_def
      encode_invalid DecodeRune_bad_lead hex_def)

text \<open>
  Claim C4, at an input where it fails. The key holds a valid record and the new owner
  is the single byte \<open>0xFF\<close>, which is not valid UTF-8. \<open>changeStudentDocOwner\<close> succeeds;
  \<open>json.Marshal\<close> has written the owner as \<open>\ufffd\<close>, so the record that is now stored
  decodes to the owner \<open>U+FFFD\<close> (the bytes \<open>EF BF BD\<close>), not to the new owner.
\<close>

theorem changeOwner_counterexample:
  \<open>Unmarshal (GetState exampleStub ''doc1'') \<lparr>DocStatus = [], Owner = []\<rparr>
     = (\<lparr>DocStatus = ''scanned'', Owner = ''Alice''\<rparr>, None)
   \<and> fst (changeStudentDocOwner exampleStub [''doc1'', [CHR 0xFF]]) = Success []
   \<and> GetState (snd (changeStudentDocOwner exampleStub [''doc1'', [CHR 0xFF]])) ''doc1''
       = ''{"docStatus":"scanned","owner":"'' @ [CHR 0x5C] @ ''ufffd"}''
   \<and> Unmarshal (''{"docStatus":"scanned","owner":"'' @ [CHR 0x5C] @ ''ufffd"}'')
         \<lparr>DocStatus = [], Owner = []\<rparr>
       = (\<lparr>DocStatus = ''scanned'', Owner = [CHR 0xEF, CHR 0xBF, CHR 0xBD]\<rparr>, None)
   \<and> [CHR 0xEF, CHR 0xBF, CHR 0xBD] \<noteq> [CHR 0xFF]\<close>
proof -
  have g: \<open>GetState exampleStub ''doc1'' = ''{"docStatus":"scanned","owner":"Alice"}''\<close>
    by (simp add: GetState_def exampleStub_def)
  have "Unmarshal (Marshal \<lparr>DocStatus = ''scanned'', Owner = [CHR 0xFF]\<rparr>)
         \<lparr>DocStatus = [], Owner = []\<rparr>
       = (\<lparr>DocStatus = ''scanned'', Owner = [CHR 0xEF, CHR 0xBF, CHR 0xBD]\<rparr>, None)"
    by (simp add: Unmarshal_Marshal_coerced coerce_examples)
  then show ?thesis
    by (simp add: g example_decoded changeOwner_result GetState_PutState Marshal_examples)
qed

text \<open>
  Claim C4, amended. When the bytes stored under the key decode without error to a
  record \<open>d\<close>, and the new owner is valid UTF-8, \<open>changeStudentDocOwner\<close> succeeds and
  stores under the key the encoding of the record with the status of \<open>d\<close> and the new
  owner; what is stored decodes, without error and into any record, to exactly the
  status of \<open>d\<close> and the new owner; and every other key of the world state holds what
  it held.
\<close>

theorem changeOwner_keeps_status:
  assumes "Unmarshal (GetState stub key) \<lparr>DocStatus = [], Owner = []\<rparr> = (d, None)"
    and "ValidString newOwner"
  shows "fst (changeStudentDocOwner stub [key, newOwner]) = Success []
    \<and> GetState (snd (changeStudentDocOwner stub [key, newOwner])) key
           = Marshal \<lparr>DocStatus = DocStatus d, Owner = newOwner\<rparr>
    \<and> Unmarshal (GetState (snd (changeStudentDocOwner stub [key, newOwner])) key) v0
           = (\<lparr>DocStatus = DocStatus d, Owner = newOwner\<rparr>, None)
    \<and> (\<forall>k. k \<noteq> key \<longrightarrow>
           map_of (State (snd (changeStudentDocOwner stub [key, newOwner]))) k
             = map_of (State stub) k)"
proof -
  have d: "fst (Unmarshal (GetState stub key) \<lparr>DocStatus = [], Owner = []\<rparr>) = d"
    using assms(1) by simp
  have "ValidString (DocStatus d)"
    using decoded_valid [of "GetState stub key"] by (simp add: d validDoc_def)
  then have u: "Unmarshal (Marshal \<lparr>DocStatus = DocStatus d, Owner = newOwner\<rparr>) v0
      = (\<lparr>DocStatus = DocStatus d, Owner = newOwner\<rparr>, None)"
    using assms(2) by (intro Unmarshal_Marshal) simp_all
  have r: "changeStudentDocOwner stub [key, newOwner]
      = (Success [], PutState stub key (Marshal \<lparr>DocStatus = DocStatus d, Owner = newOwner\<rparr>))"
    using changeOwner_result [of stub key newOwner] by (simp add: d)
  show ?thesis
    by (simp add: r u GetState_PutState map_of_PutState)
qed

theorem changeOwner_keeps_status_witness:
  \<open>Unmarshal (GetState twoDocStub ''doc1'') \<lparr>DocStatus = [], Owner = []\<rparr>
     = (\<lparr>DocStatus = ''scanned'', Owner = ''Alice''\<rparr>, None)
   \<and> ValidString ''Bo"b''
   \<and> fst (changeStudentDocOwner twoDocStub [''doc1'', ''Bo"b'']) = Success []
   \<and> GetState (snd (changeStudentDocOwner twoDocStub [''doc1'', ''Bo"b''])) ''doc1''
       = ''{"docStatus":"scanned","owner":"Bo'' @ [CHR 0x5C] @ ''"b"}''
   \<and> Unmarshal (''{"docStatus":"scanned","owner":"Bo'' @ [CHR 0x5C] @ ''"b"}'')
         \<lparr>DocStatus = [], Owner = []\<rparr>
       = (\<lparr>DocStatus = ''scanned'', Owner = ''Bo"b''\<rparr>, None)
   \<and> map_of (State (snd (changeStudentDocOwner twoDocStub [''doc1'', ''Bo"b'']))) ''doc2''
       = Some ''{"docStatus":"machine scored","owner":"Mark"}''\<close>
proof -
  have g: \<open>GetState twoDocStub ''doc1'' = ''{"docStatus":"scanned","owner":"Alice"}''\<close>
    by (simp add: GetState_def twoDocStub_def)
  have u: "Unmarshal (GetState twoDocStub ''doc1'') \<lparr>DocStatus = [], Owner = []\<rparr>
     = (\<lparr>DocStatus = ''scanned'', Owner = ''Alice''\<rparr>, None)"
    unfolding g by (rule example_decoded)
  have other: \<open>map_of (State twoDocStub) ''doc2''
      = Some ''{"docStatus":"machine scored","owner":"Mark"}''\<close>
    by (simp add: twoDocStub_def)
  have ne: "''doc2'' \<noteq> ''doc1''"
    by simp
  note T = changeOwner_keeps_status [OF u valid_more(1), of "\<lparr>DocStatus = [], Owner = []\<rparr>"]
  note ok = T [THEN conjunct1]
  note stored = T [THEN conjunct2, THEN conjunct1]
  note dec = T [THEN conjunct2, THEN conjunct2, THEN conjunct1]
  note frame = T [THEN conjunct2, THEN conjunct2, THEN conjunct2, THEN spec, THEN mp, OF ne]
  show ?thesis
    using u valid_more(1) ok stored dec frame other by (simp add: Marshal_more)
qed

text \<open>
  Claim C5, at an input where it fails. The key holds a valid record; the new owner and
  the new status are both the single byte \<open>0xFF\<close>. \<open>changeStudentDocStatus\<close> succeeds, and
  the record that is now stored decodes to \<open>U+FFFD\<close> in both fields, not to what the
  caller gave.
\<close>

theorem changeStatus_counterexample:
  \<open>Unmarshal (GetState exampleStub ''doc1'') \<lparr>DocStatus = [], Owner = []\<rparr>
     = (\<lparr>DocStatus = ''scanned'', Owner = ''Alice''\<rparr>, None)
   \<and> fst (changeStudentDocStatus exampleStub [''doc1'', [CHR 0xFF], [CHR 0xFF]]) = Success []
   \<and> GetState (snd (changeStudentDocStatus exampleStub [''doc1'', [CHR 0xFF], [CHR 0xFF]])) ''doc1''
       = ''{"docStatus":"'' @ [CHR 0x5C] @ ''ufffd","owner":"'' @ [CHR 0x5C] @ ''ufffd"}''
   \<and> Unmarshal (''{"docStatus":"'' @ [CHR 0x5C] @ ''ufffd","owner":"'' @ [CHR 0x5C] @ ''ufffd"}'')
         \<lparr>DocStatus = [], Owner = []\<rparr>
       = (\<lparr>DocStatus = [CHR 0xEF, CHR 0xBF, CHR 0xBD], Owner = [CHR 0xEF, CHR 0xBF, CHR 0xBD]\<rparr>,
          None)
   \<and> [CHR 0xEF, CHR 0xBF, CHR 0xBD] \<noteq> [CHR 0xFF]\<close>
proof -
  have g: \<open>GetState exampleStub ''doc1'' = ''{"docStatus":"scanned","owner":"Alice"}''\<close>
    by (simp add: GetState_def exampleStub_def)
  have "Unmarshal (Marshal \<lparr>DocStatus = [CHR 0xFF], Owner = [CHR 0xFF]\<rparr>)
         \<lparr>DocStatus = [], Owner = []\<rparr>
       = (\<lparr>DocStatus = [CHR 0xEF, CHR 0xBF, CHR 0xBD], Owner = [CHR 0xEF, CHR 0xBF, CHR 0xBD]\<rparr>,
          None)"
    by (simp add: Unmarshal_Marshal_coerced coerce_examples)
  then show ?thesis
    by (simp add: g example_decoded changeStatus_result GetState_PutState Marshal_more)
qed

text \<open>
  Claim C5, amended. When the new owner and the new status are valid UTF-8,
  \<open>changeStudentDocStatus\<close> succeeds and stores under the key, in the one invocation, the
  encoding of the record with the new status and the new owner; what is stored decodes,
  without error and into any record, to exactly that status and that owner. This holds
  whatever the key held before, so in particular when it held a valid record.
\<close>

theorem changeStatus_sets_both:
  assumes "ValidString newOwner" and "ValidString newStatus"
  shows "fst (changeStudentDocStatus stub [key, newOwner, newStatus]) = Success []
    \<and> GetState (snd (changeStudentDocStatus stub [key, newOwner, newStatus])) key
        = Marshal \<lparr>DocStatus = newStatus, Owner = newOwner\<rparr>
    \<and> Unmarshal (GetState (snd (changeStudentDocStatus stub [key, newOwner, newStatus])) key) v0
        = (\<lparr>DocStatus = newStatus, Owner = newOwner\<rparr>, None)"
proof -
  have "Unmarshal (Marshal \<lparr>DocStatus = newStatus, Owner = newOwner\<rparr>) v0
      = (\<lparr>DocStatus = newStatus, Owner = newOwner\<rparr>, None)"
    using assms by (intro Unmarshal_Marshal) simp_all
  then show ?thesis
    by (simp add: changeStatus_result GetState_PutState)
qed

theorem changeStatus_sets_both_witness:
  \<open>ValidString ''Bob'' \<and> ValidString ''scored & sent''
   \<and> fst (changeStudentDocStatus twoDocStub [''doc1'', ''Bob'', ''scored & sent'']) = Success []
   \<and> GetState (snd (changeStudentDocStatus twoDocStub [''doc1'', ''Bob'', ''scored & sent'']))
         ''doc1''
       = ''{"docStatus":"scored '' @ [CHR 0x5C] @ ''u0026 sent","owner":"Bob"}''
   \<and> Unmarshal (''{"docStatus":"scored '' @ [CHR 0x5C] @ ''u0026 sent","owner":"Bob"}'')
         \<lparr>DocStatus = [], Owner = []\<rparr>
       = (\<lparr>DocStatus = ''scored & sent'', Owner = ''Bob''\<rparr>, None)\<close>
proof -
  note T = changeStatus_sets_both [OF valid_examples(3) valid_more(2), of twoDocStub "''doc1''"
      "\<lparr>DocStatus = [], Owner = []\<rparr>"]
  note ok = T [THEN conjunct1]
  note stored = T [THEN conjunct2, THEN conjunct1]
  note dec = T [THEN conjunct2, THEN conjunct2]
  show ?thesis
    using valid_examples(3) valid_more(2) ok stored dec by (simp add: Marshal_more)
qed

text \<open>
  Claim C6, at an input where it fails. The stored bytes are valid JSON but the owner
  is a number: \<open>json.Unmarshal\<close> returns a type error, yet it has already set the
  status. \<open>changeStudentDocOwner\<close> discards the error, succeeds, and writes back the
  stored status with the new owner, not a record with an empty status.
\<close>

theorem undecodable_counterexample:
  \<open>Unmarshal (GetState mistypedStub ''doc1'') \<lparr>DocStatus = [], Owner = []\<rparr>
     = (\<lparr>DocStatus = ''scanned'', Owner = []\<rparr>, Some UnmarshalTypeError)
   \<and> fst (changeStudentDocOwner mistypedStub [''doc1'', ''Bob'']) = Success []
   \<and> GetState (snd (changeStudentDocOwner mistypedStub [''doc1'', ''Bob''])) ''doc1''
       = ''{"docStatus":"scanned","owner":"Bob"}''
   \<and> Marshal \<lparr>DocStatus = [], Owner = ''Bob''\<rparr> = ''{"docStatus":"","owner":"Bob"}''
   \<and> ''{"docStatus":"scanned","owner":"Bob"}'' \<noteq> ''{"docStatus":"","owner":"Bob"}''\<close>
proof -
  have g: \<open>GetState mistypedStub ''doc1'' = ''{"docStatus":"scanned","owner":7}''\<close>
    by (simp add: GetState_def mistypedStub_def)
  show ?thesis
    by (simp add: g mistyped_decoded changeStudentDocOwner_def GetState_PutState Marshal_examples)
qed

lemma mismatch_decoded:
  \<open>Unmarshal ''[]'' \<lparr>DocStatus = [], Owner = []\<rparr>
     = (\<lparr>DocStatus = [], Owner = []\<rparr>, Some UnmarshalTypeError)\<close>
  \<open>Unmarshal ''{"owner":7}'' \<lparr>DocStatus = [], Owner = []\<rparr>
     = (\<lparr>DocStatus = [], Owner = []\<rparr>, Some UnmarshalTypeError)\<close>
proof -
  let ?v0 = "\<lparr>DocStatus = [], Owner = []\<rparr>"
  have "checkValid ''[]''"
    by (simp add: checkValid_def reset_def scan_defs less_eq_char_def)
  then show \<open>Unmarshal ''[]'' ?v0 = (?v0, Some UnmarshalTypeError)\<close>
    by (simp add: Unmarshal_def skipSpace_def isSpace_def)
  have valid: \<open>checkValid ''{"owner":7}''\<close>
    by (simp add: checkValid_def reset_def scan_defs less_eq_char_def)
  have members: \<open>''"owner":7}'' = encodeString ''owner'' @ CHR '':'' # CHR ''7'' # CHR ''}'' # []\<close>
    by (simp add: names_encoded)
  have obj: \<open>object ''"owner":7}'' ?v0 None = (?v0, Some UnmarshalTypeError)\<close>
    unfolding members by (rule number_member [OF names_found(2)])
  have sk: \<open>skipSpace ''{"owner":7}'' = CHR ''{'' # ''"owner":7}''\<close>
    by (simp add: skipSpace_def isSpace_def)
  show \<open>Unmarshal ''{"owner":7}'' ?v0 = (?v0, Some UnmarshalTypeError)\<close>
    using valid obj by (simp add: Unmarshal_def sk)
qed

text \<open>
  Claim C6, amended. When the key is absent, or the stored bytes fail to decode,
  \<open>json.Unmarshal\<close> returns an error; both handlers discard it and succeed, and each
  writes back under the key the record as the decoder left it with the fields of the
  call applied (what is stored decodes, without error, to that record, its new strings
  coerced to valid UTF-8). \<open>changeStudentDocStatus\<close> sets both fields, so it writes
  the new status and the new owner in every such case. \<open>changeStudentDocOwner\<close> writes
  the new owner with the status that the decoder had stored before it failed, so that
  what it writes is the zero-value record with the new owner exactly when that status
  is empty: the record is left at its zero value whenever the key is absent, the bytes
  are not valid JSON, or their value is not a JSON object.
\<close>

theorem undecodable_written_back:
  assumes "map_of (State stub) key = None
    \<or> snd (Unmarshal (GetState stub key) \<lparr>DocStatus = [], Owner = []\<rparr>) \<noteq> None"
  shows "snd (Unmarshal (GetState stub key) \<lparr>DocStatus = [], Owner = []\<rparr>) \<noteq> None
    \<and> fst (changeStudentDocOwner stub [key, newOwner]) = Success []
    \<and> fst (changeStudentDocStatus stub [key, newOwner, newStatus]) = Success []
    \<and> GetState (snd (changeStudentDocStatus stub [key, newOwner, newStatus])) key
        = Marshal \<lparr>DocStatus = newStatus, Owner = newOwner\<rparr>
    \<and> Unmarshal (GetState (snd (changeStudentDocStatus stub [key, newOwner, newStatus])) key) v0
        = (\<lparr>DocStatus = coerceUTF8 newStatus, Owner = coerceUTF8 newOwner\<rparr>, None)
    \<and> GetState (snd (changeStudentDocOwner stub [key, newOwner])) key
        = Marshal \<lparr>DocStatus = DocStatus (fst (Unmarshal (GetState stub key)
                                                 \<lparr>DocStatus = [], Owner = []\<rparr>)),
                   Owner = newOwner\<rparr>
    \<and> Unmarshal (GetState (snd (changeStudentDocOwner stub [key, newOwner])) key) v0
        = (\<lparr>DocStatus = DocStatus (fst (Unmarshal (GetState stub key)
                                           \<lparr>DocStatus = [], Owner = []\<rparr>)),
             Owner = coerceUTF8 newOwner\<rparr>, None)
    \<and> (Unmarshal (GetState (snd (changeStudentDocOwner stub [key, newOwner])) key) v0
           = (\<lparr>DocStatus = [], Owner = coerceUTF8 newOwner\<rparr>, None))
        = (DocStatus (fst (Unmarshal (GetState stub key) \<lparr>DocStatus = [], Owner = []\<rparr>)) = [])
    \<and> (map_of (State stub) key = None \<or> \<not> checkValid (GetState stub key)
          \<or> \<not> topLevelObject (GetState stub key)
        \<longrightarrow> fst (Unmarshal (GetState stub key) \<lparr>DocStatus = [], Owner = []\<rparr>)
              = \<lparr>DocStatus = [], Owner = []\<rparr>)"
proof -
  let ?z = "\<lparr>DocStatus = [], Owner = []\<rparr>"
  let ?data = "GetState stub key"
  let ?d = "fst (Unmarshal ?data ?z)"
  have absent: "\<not> checkValid ?data" if "map_of (State stub) key = None"
    using that checkValid_empty by (simp add: GetState_def)
  have fail: "snd (Unmarshal ?data ?z) \<noteq> None"
  proof (cases "map_of (State stub) key = None")
    case True
    then show ?thesis using absent by (simp add: Unmarshal_def)
  next
    case False
    from assms show ?thesis
    proof
      assume "map_of (State stub) key = None"
      with False show ?thesis by simp
    next
      assume "snd (Unmarshal ?data ?z) \<noteq> None"
      then show ?thesis .
    qed
  qed
  have zero: "?d = ?z"
    if "map_of (State stub) key = None \<or> \<not> checkValid ?data \<or> \<not> topLevelObject ?data"
  proof -
    have "\<not> checkValid ?data \<or> \<not> topLevelObject ?data"
      using that absent by blast
    then show ?thesis by (rule Unmarshal_not_object)
  qed
  have o: "Unmarshal (Marshal \<lparr>DocStatus = DocStatus ?d, Owner = newOwner\<rparr>) v0
      = (\<lparr>DocStatus = DocStatus ?d, Owner = coerceUTF8 newOwner\<rparr>, None)"
    by (simp add: Unmarshal_Marshal_coerced decoded_status)
  have s: "Unmarshal (Marshal \<lparr>DocStatus = newStatus, Owner = newOwner\<rparr>) v0
      = (\<lparr>DocStatus = coerceUTF8 newStatus, Owner = coerceUTF8 newOwner\<rparr>, None)"
    by (simp add: Unmarshal_Marshal_coerced)
  show ?thesis
    using fail zero o s
    by (simp add: changeOwner_result changeStatus_result GetState_PutState)
qed

theorem undecodable_written_back_witness:
  \<open>map_of (State exampleStub) ''doc9'' = None
   \<and> fst (changeStudentDocOwner exampleStub [''doc9'', ''Bob'']) = Success []
   \<and> GetState (snd (changeStudentDocOwner exampleStub [''doc9'', ''Bob''])) ''doc9''
       = ''{"docStatus":"","owner":"Bob"}''
   \<and> Unmarshal ''{"docStatus":"","owner":"Bob"}'' \<lparr>DocStatus = [], Owner = []\<rparr>
       = (\<lparr>DocStatus = [], Owner = ''Bob''\<rparr>, None)
   \<and> Unmarshal (GetState arrayStub ''doc1'') \<lparr>DocStatus = [], Owner = []\<rparr>
       = (\<lparr>DocStatus = [], Owner = []\<rparr>, Some UnmarshalTypeError)
   \<and> \<not> topLevelObject (GetState arrayStub ''doc1'')
   \<and> GetState (snd (changeStudentDocOwner arrayStub [''doc1'', ''Bob''])) ''doc1''
       = ''{"docStatus":"","owner":"Bob"}''
   \<and> Unmarshal (GetState numberOwnerStub ''doc1'') \<lparr>DocStatus = [], Owner = []\<rparr>
       = (\<lparr>DocStatus = [], Owner = []\<rparr>, Some UnmarshalTypeError)
   \<and> GetState (snd (changeStudentDocOwner numberOwnerStub [''doc1'', ''Bob''])) ''doc1''
       = ''{"docStatus":"","owner":"Bob"}''
   \<and> Unmarshal (GetState mistypedStub ''doc1'') \<lparr>DocStatus = [], Owner = []\<rparr>
       = (\<lparr>DocStatus = ''scanned'', Owner = []\<rparr>, Some UnmarshalTypeError)
   \<and> fst (changeStudentDocStatus mistypedStub [''doc1'', ''Bob'', ''human scored'']) = Success []
   \<and> GetState (snd (changeStudentDocStatus mistypedStub [''doc1'', ''Bob'', ''human scored'']))
         ''doc1''
       = ''{"docStatus":"human scored","owner":"Bob"}''\<close>
proof -
  let ?z = "\<lparr>DocStatus = [], Owner = []\<rparr>"
  have absent: "map_of (State exampleStub) ''doc9'' = None"
    by (simp add: exampleStub_def)
  have ga: \<open>GetState arrayStub ''doc1'' = ''[]''\<close>
    by (simp add: GetState_def arrayStub_def)
  have gn: \<open>GetState numberOwnerStub ''doc1'' = ''{"owner":7}''\<close>
    by (simp add: GetState_def numberOwnerStub_def)
  have gm: \<open>GetState mistypedStub ''doc1'' = ''{"docStatus":"scanned","owner":7}''\<close>
    by (simp add: GetState_def mistypedStub_def)
  have ua: "Unmarshal (GetState arrayStub ''doc1'') ?z = (?z, Some UnmarshalTypeError)"
    unfolding ga by (rule mismatch_decoded(1))
  have un: "Unmarshal (GetState numberOwnerStub ''doc1'') ?z = (?z, Some UnmarshalTypeError)"
    unfolding gn by (rule mismatch_decoded(2))
  have um: "Unmarshal (GetState mistypedStub ''doc1'') ?z
      = (\<lparr>DocStatus = ''scanned'', Owner = []\<rparr>, Some UnmarshalTypeError)"
    unfolding gm by (rule mistyped_decoded)
  have notobj: "\<not> topLevelObject (GetState arrayStub ''doc1'')"
    unfolding ga by (simp add: topLevelObject_def skipSpace_def isSpace_def)
  have h1: "map_of (State exampleStub) ''doc9'' = None
      \<or> snd (Unmarshal (GetState exampleStub ''doc9'') ?z) \<noteq> None"
    using absent by simp
  have h2: "map_of (State arrayStub) ''doc1'' = None
      \<or> snd (Unmarshal (GetState arrayStub ''doc1'') ?z) \<noteq> None"
    by (simp add: ua)
  have h3: "map_of (State numberOwnerStub) ''doc1'' = None
      \<or> snd (Unmarshal (GetState numberOwnerStub ''doc1'') ?z) \<noteq> None"
    by (simp add: un)
  have h4: "map_of (State mistypedStub) ''doc1'' = None
      \<or> snd (Unmarshal (GetState mistypedStub ''doc1'') ?z) \<noteq> None"
    by (simp add: um)
  note T1 = undecodable_written_back [OF h1, of "''Bob''" "[]" ?z]
  note T2 = undecodable_written_back [OF h2, of "''Bob''" "[]" ?z]
  note T3 = undecodable_written_back [OF h3, of "''Bob''" "[]" ?z]
  note T4 = undecodable_written_back [OF h4, of "''Bob''" "''human scored''" ?z]
  note tail1 = T1 [THEN conjunct2, THEN conjunct2, THEN conjunct2, THEN conjunct2, THEN conjunct2]
  note tail2 = T2 [THEN conjunct2, THEN conjunct2, THEN conjunct2, THEN conjunct2, THEN conjunct2]
  note tail3 = T3 [THEN conjunct2, THEN conjunct2, THEN conjunct2, THEN conjunct2, THEN conjunct2]
  have z1: "fst (Unmarshal (GetState exampleStub ''doc9'') ?z) = ?z"
    using tail1 [THEN conjunct2, THEN conjunct2, THEN conjunct2] absent
    by (rule mp [OF _ disjI1])
  have z2: "fst (Unmarshal (GetState arrayStub ''doc1'') ?z) = ?z"
    by (simp add: ua)
  have z3: "fst (Unmarshal (GetState numberOwnerStub ''doc1'') ?z) = ?z"
    by (simp add: un)
  note c1 = T1 [THEN conjunct2, THEN conjunct1]
  note c2 = tail1 [THEN conjunct1]
  note c3 = tail1 [THEN conjunct2, THEN conjunct1]
  note c4 = tail2 [THEN conjunct1]
  note c5 = tail3 [THEN conjunct1]
  note c6 = T4 [THEN conjunct2, THEN conjunct2, THEN conjunct1]
  note c7 = T4 [THEN conjunct2, THEN conjunct2, THEN conjunct2, THEN conjunct1]
  show ?thesis
    using absent c1 c2 c3 ua notobj c4 un c5 um c6 c7
    by (simp add: z1 z2 z3 Marshal_examples Marshal_more coerce_examples)
qed

end
